theory Spec2Isabelle
  imports Complex_Main
begin

section \<open>JavaScript values\<close>

text \<open>
  The sync script \<^verbatim>\<open>scripts/fetch/run.mjs\<close> works on values that come out of
  \<^verbatim>\<open>JSON.parse\<close> and reads them with optional chaining, \<^verbatim>\<open>??\<close> and
  \<^verbatim>\<open>Number(...)\<close>. The embedding keeps that dynamic typing.

  A JavaScript number is a finite value, \<^verbatim>\<open>NaN\<close> or one of the two infinities. The
  finite values are modelled as rationals with exact arithmetic: identifiers, reply counts,
  unix timestamps and millisecond clocks are integers far below \<open>2^53\<close>, where the
  arithmetic of IEEE doubles is exact. Negative zero is not distinguished from zero.
\<close>

datatype number = Num rat | NaN | Infinity | NegInfinity

datatype json =
    JUndef
  | JNull
  | JBool bool
  | JNum number
  | JStr string
  | JArr "json list"
  | JObj "(string \<times> json) list"

fun Number_isFinite :: "number \<Rightarrow> bool" where
  "Number_isFinite (Num q) = True"
| "Number_isFinite _ = False"

fun num_neg :: "number \<Rightarrow> number" where
  "num_neg (Num a) = Num (- a)"
| "num_neg NaN = NaN"
| "num_neg Infinity = NegInfinity"
| "num_neg NegInfinity = Infinity"

fun num_add :: "number \<Rightarrow> number \<Rightarrow> number" where
  "num_add NaN _ = NaN"
| "num_add _ NaN = NaN"
| "num_add (Num a) (Num b) = Num (a + b)"
| "num_add Infinity NegInfinity = NaN"
| "num_add NegInfinity Infinity = NaN"
| "num_add Infinity _ = Infinity"
| "num_add NegInfinity _ = NegInfinity"
| "num_add (Num a) b = b"

definition num_sub :: "number \<Rightarrow> number \<Rightarrow> number" where
  "num_sub a b = num_add a (num_neg b)"

fun num_sign :: "number \<Rightarrow> int" where
  "num_sign (Num a) = (if a < 0 then - 1 else if a = 0 then 0 else 1)"
| "num_sign Infinity = 1"
| "num_sign NegInfinity = - 1"
| "num_sign NaN = 0"

fun num_mul :: "number \<Rightarrow> number \<Rightarrow> number" where
  "num_mul NaN _ = NaN"
| "num_mul _ NaN = NaN"
| "num_mul (Num a) (Num b) = Num (a * b)"
| "num_mul a b =
     (if num_sign a * num_sign b = 0 then NaN
      else if num_sign a * num_sign b < 0 then NegInfinity else Infinity)"

text \<open>The relational operators: every comparison with \<^verbatim>\<open>NaN\<close> is false.\<close>

fun num_lt :: "number \<Rightarrow> number \<Rightarrow> bool" where
  "num_lt NaN _ = False"
| "num_lt _ NaN = False"
| "num_lt (Num a) (Num b) = (a < b)"
| "num_lt _ NegInfinity = False"
| "num_lt NegInfinity _ = True"
| "num_lt Infinity _ = False"
| "num_lt (Num a) Infinity = True"

definition num_gt :: "number \<Rightarrow> number \<Rightarrow> bool" where
  "num_gt a b = num_lt b a"

definition num_le :: "number \<Rightarrow> number \<Rightarrow> bool" where
  "num_le a b = (a \<noteq> NaN \<and> b \<noteq> NaN \<and> \<not> num_lt b a)"

definition num_ge :: "number \<Rightarrow> number \<Rightarrow> bool" where
  "num_ge a b = (a \<noteq> NaN \<and> b \<noteq> NaN \<and> \<not> num_lt a b)"

text \<open>\<^verbatim>\<open>===\<close> on two numbers: \<^verbatim>\<open>NaN\<close> is not equal to itself.\<close>

definition num_eq :: "number \<Rightarrow> number \<Rightarrow> bool" where
  "num_eq a b = (a \<noteq> NaN \<and> a = b)"

fun Math_max :: "number \<Rightarrow> number \<Rightarrow> number" where
  "Math_max NaN _ = NaN"
| "Math_max _ NaN = NaN"
| "Math_max a b = (if num_lt a b then b else a)"

text \<open>Truthiness, as \<^verbatim>\<open>!x\<close> and \<^verbatim>\<open>if (x)\<close> test it.\<close>

fun truthy :: "json \<Rightarrow> bool" where
  "truthy JUndef = False"
| "truthy JNull = False"
| "truthy (JBool b) = b"
| "truthy (JNum n) = (n \<noteq> NaN \<and> n \<noteq> Num 0)"
| "truthy (JStr s) = (s \<noteq> [])"
| "truthy (JArr xs) = True"
| "truthy (JObj kvs) = True"

text \<open>
  \<^verbatim>\<open>x?.k\<close> for the property names the script reads (\<^verbatim>\<open>topic\<close>, \<^verbatim>\<open>meta\<close>,
  \<^verbatim>\<open>id\<close>, \<^verbatim>\<open>replies\<close>, ...): an object parsed from JSON yields its own property,
  every other value (null, undefined, a primitive, an array) yields undefined. A plain
  access \<^verbatim>\<open>x.k\<close> agrees with \<^verbatim>\<open>x?.k\<close> unless \<open>x\<close> is null or undefined, where it
  throws; the functions below say so wherever the script can reach such an access.
\<close>

fun js_get :: "json \<Rightarrow> string \<Rightarrow> json" where
  "js_get (JObj kvs) k = (case map_of kvs k of Some v \<Rightarrow> v | None \<Rightarrow> JUndef)"
| "js_get _ k = JUndef"

text \<open>\<^verbatim>\<open>a ?? b\<close>\<close>

fun nullish :: "json \<Rightarrow> bool" where
  "nullish JUndef = True"
| "nullish JNull = True"
| "nullish _ = False"

definition coalesce :: "json \<Rightarrow> json \<Rightarrow> json" where
  "coalesce a b = (if nullish a then b else a)"

fun Array_isArray :: "json \<Rightarrow> bool" where
  "Array_isArray (JArr xs) = True"
| "Array_isArray _ = False"

section \<open>Configuration and platform\<close>

text \<open>
  \<^verbatim>\<open>CONFIG\<close> is read once from the process environment with \<^verbatim>\<open>Number(...)\<close>, so
  each field is a JavaScript number (possibly \<^verbatim>\<open>NaN\<close>); \<^verbatim>\<open>retries\<close> is the
  literal 3 in the script and is kept as a natural number.

  The platform functions the script calls but does not define are fields of the same
  record: what \<^verbatim>\<open>Number\<close> makes of a string, an array or an object
  (\<open>ToNumber_object\<close>), \<^verbatim>\<open>Date.parse\<close>, \<^verbatim>\<open>Date.prototype.toISOString\<close>, the
  decimal text of a number inside a template string, the outcome of the k-th interaction
  with the network and the file system, and the time each suspension takes beyond the
  requested one.
\<close>

datatype error = Error (message: string)

text \<open>
  What \<^verbatim>\<open>fetch\<close> gives: a rejection (transport failure), or a response with its HTTP
  status and what \<^verbatim>\<open>response.json()\<close> makes of the body (a parse error or a value).
\<close>

datatype response =
    Rejected error
  | Response nat "error + json"

record env =
  intervalMs :: number
  refreshTtlHours :: number
  concurrency :: number
  retries :: nat
  hotPoolLimit :: number
  hotPoolTtlDays :: number
  V2EX_TOKEN :: "string option"
  ToNumber_object :: "json \<Rightarrow> number"
  Date_parse :: "json \<Rightarrow> number"
  toISOString :: "int \<Rightarrow> string"
  num_text :: "number \<Rightarrow> string"
  net :: "nat \<Rightarrow> string \<Rightarrow> string option \<Rightarrow> response"
  fs_failure :: "nat \<Rightarrow> string \<Rightarrow> error option"
  lag :: "nat \<Rightarrow> nat"

text \<open>\<^verbatim>\<open>Number(x)\<close>\<close>

fun Number_of :: "env \<Rightarrow> json \<Rightarrow> number" where
  "Number_of e JUndef = NaN"
| "Number_of e JNull = Num 0"
| "Number_of e (JBool b) = (if b then Num 1 else Num 0)"
| "Number_of e (JNum n) = n"
| "Number_of e v = ToNumber_object e v"

section \<open>Arrays, maps and sets\<close>

text \<open>
  \<^verbatim>\<open>[...x]\<close>: an array spreads to its elements and a string to its characters; a
  number, a boolean or a plain object is not iterable and the spread throws a TypeError.
  (\<^verbatim>\<open>null\<close> and \<^verbatim>\<open>undefined\<close> are replaced by \<^verbatim>\<open>[]\<close> before every spread of the
  script and throw as well when spread directly.)
\<close>

fun spread :: "json \<Rightarrow> error + json list" where
  "spread (JArr xs) = Inr xs"
| "spread (JStr s) = Inr (map (\<lambda>c. JStr [c]) s)"
| "spread _ = Inl (Error ''TypeError: value is not iterable'')"

text \<open>
  A \<^verbatim>\<open>Map\<close> keyed by numbers keeps its entries in insertion order; \<^verbatim>\<open>set\<close> on an
  existing key replaces the value in place.
\<close>

type_synonym js_map = "(number \<times> json) list"

definition Map_get :: "js_map \<Rightarrow> number \<Rightarrow> json" where
  "Map_get m k = (case map_of m k of Some v \<Rightarrow> v | None \<Rightarrow> JUndef)"

definition Map_set :: "js_map \<Rightarrow> number \<Rightarrow> json \<Rightarrow> js_map" where
  "Map_set m k v =
     (if map_of m k = None then m @ [(k, v)]
      else map (\<lambda>(k', v'). if k' = k then (k', v) else (k', v')) m)"

definition Map_values :: "js_map \<Rightarrow> json list" where
  "Map_values m = map snd m"

text \<open>
  \<^verbatim>\<open>Array.prototype.sort(cmp)\<close> is stable: \<open>x\<close> is moved behind \<open>y\<close> only when
  \<^verbatim>\<open>cmp(x, y) > 0\<close> (a \<^verbatim>\<open>NaN\<close> result counts as 0). For a comparator that is not a
  consistent ordering the language leaves the resulting order to the implementation, which
  still returns a permutation; the stable insertion sort stands for it.
\<close>

fun sort_insert :: "('a \<Rightarrow> 'a \<Rightarrow> number) \<Rightarrow> 'a \<Rightarrow> 'a list \<Rightarrow> 'a list" where
  "sort_insert cmp x [] = [x]"
| "sort_insert cmp x (y # ys) =
     (if num_gt (cmp x y) (Num 0) then y # sort_insert cmp x ys else x # y # ys)"

definition Array_sort :: "('a \<Rightarrow> 'a \<Rightarrow> number) \<Rightarrow> 'a list \<Rightarrow> 'a list" where
  "Array_sort cmp xs = foldr (sort_insert cmp) xs []"

text \<open>
  \<^verbatim>\<open>xs.slice(0, end)\<close>: the end index goes through ToIntegerOrInfinity (\<^verbatim>\<open>NaN\<close> becomes 0,
  a fraction is truncated toward zero); a negative end counts from the end of the array.
\<close>

definition Array_slice0 :: "'a list \<Rightarrow> number \<Rightarrow> 'a list" where
  "Array_slice0 xs fin =
     (case fin of
        NaN \<Rightarrow> []
      | Infinity \<Rightarrow> xs
      | NegInfinity \<Rightarrow> []
      | Num q \<Rightarrow>
          (let k = (if q < 0 then \<lceil>q\<rceil> else \<lfloor>q\<rfloor>)
           in if k < 0 then take (nat (int (length xs) + k)) xs else take (nat k) xs))"

section \<open>The pure functions of the sync script\<close>

text \<open>
  \<^verbatim>\<open>function topicFreshness(topic) {
    return Number(topic?.last_touched ?? topic?.last_modified ?? topic?.created ?? 0);
  }\<close>
\<close>

definition topicFreshness :: "env \<Rightarrow> json \<Rightarrow> number" where
  "topicFreshness e topic =
     Number_of e
       (coalesce (coalesce (coalesce (js_get topic ''last_touched'')
                                     (js_get topic ''last_modified''))
                           (js_get topic ''created''))
                 (JNum (Num 0)))"

text \<open>
  \<^verbatim>\<open>function decideRefreshTopic({ existingTopicDoc, listSnapshot, now, ttlMs }) {
    if (!existingTopicDoc?.topic) return true;
    const prevFetchedAt = Date.parse(existingTopicDoc?.meta?.fetched_at ?? "");
    if (!Number.isFinite(prevFetchedAt)) return true;
    if (now - prevFetchedAt > ttlMs) return true;
    const prev = existingTopicDoc?.meta?.list_snapshot ?? {};
    const sameReplies = Number(prev.replies ?? -1) === Number(listSnapshot.replies ?? -2);
    const sameTouched = Number(prev.last_modified ?? -1) === Number(listSnapshot.last_modified ?? -2);
    return !(sameReplies && sameTouched);
  }\<close>
\<close>

definition prevFetchedAt :: "env \<Rightarrow> json \<Rightarrow> number" where
  "prevFetchedAt e existingTopicDoc =
     Date_parse e (coalesce (js_get (js_get existingTopicDoc ''meta'') ''fetched_at'') (JStr []))"

definition sameReplies :: "env \<Rightarrow> json \<Rightarrow> json \<Rightarrow> bool" where
  "sameReplies e prev listSnapshot =
     num_eq (Number_of e (coalesce (js_get prev ''replies'') (JNum (Num (- 1)))))
            (Number_of e (coalesce (js_get listSnapshot ''replies'') (JNum (Num (- 2)))))"

definition sameTouched :: "env \<Rightarrow> json \<Rightarrow> json \<Rightarrow> bool" where
  "sameTouched e prev listSnapshot =
     num_eq (Number_of e (coalesce (js_get prev ''last_modified'') (JNum (Num (- 1)))))
            (Number_of e (coalesce (js_get listSnapshot ''last_modified'') (JNum (Num (- 2)))))"

text \<open>
  \<^verbatim>\<open>listSnapshot.replies\<close> is a plain property access: it throws a TypeError when
  \<open>listSnapshot\<close> is null or undefined. (\<open>prev\<close> is never either, by its \<^verbatim>\<open>?? {}\<close>.)
\<close>

definition decideRefreshTopic ::
    "env \<Rightarrow> json \<Rightarrow> json \<Rightarrow> number \<Rightarrow> number \<Rightarrow> error + bool" where
  "decideRefreshTopic e existingTopicDoc listSnapshot now ttlMs =
     (if \<not> truthy (js_get existingTopicDoc ''topic'') then Inr True
      else if \<not> Number_isFinite (prevFetchedAt e existingTopicDoc) then Inr True
      else if num_gt (num_sub now (prevFetchedAt e existingTopicDoc)) ttlMs then Inr True
      else
        (let prev = coalesce (js_get (js_get existingTopicDoc ''meta'') ''list_snapshot'') (JObj [])
         in if nullish listSnapshot
            then Inl (Error ''TypeError: cannot read properties of null or undefined'')
            else Inr (\<not> (sameReplies e prev listSnapshot \<and> sameTouched e prev listSnapshot))))"

text \<open>
  \<^verbatim>\<open>function mergeTopicLists(a, b) {
    const map = new Map();
    for (const item of [...(a ?? []), ...(b ?? [])]) {
      const id = Number(item?.id);
      if (!Number.isFinite(id) || id <= 0) continue;
      const prev = map.get(id);
      if (!prev) { map.set(id, item); continue; }
      const prevScore = topicFreshness(prev);
      const curScore = topicFreshness(item);
      if (curScore >= prevScore) map.set(id, item);
    }
    return [...map.values()].sort((x, y) => topicFreshness(y) - topicFreshness(x));
  }\<close>
\<close>

definition topic_id :: "env \<Rightarrow> json \<Rightarrow> number" where
  "topic_id e item = Number_of e (js_get item ''id'')"

definition merge_step :: "env \<Rightarrow> js_map \<Rightarrow> json \<Rightarrow> js_map" where
  "merge_step e m item =
     (let id' = topic_id e item in
      if \<not> Number_isFinite id' \<or> num_le id' (Num 0) then m
      else
        (let prev = Map_get m id' in
         if \<not> truthy prev then Map_set m id' item
         else if num_ge (topicFreshness e item) (topicFreshness e prev) then Map_set m id' item
         else m))"

definition by_freshness_desc :: "env \<Rightarrow> json \<Rightarrow> json \<Rightarrow> number" where
  "by_freshness_desc e x y = num_sub (topicFreshness e y) (topicFreshness e x)"

definition mergeTopicLists :: "env \<Rightarrow> json \<Rightarrow> json \<Rightarrow> error + json list" where
  "mergeTopicLists e a b =
     (case spread (coalesce a (JArr [])) of
        Inl err \<Rightarrow> Inl err
      | Inr xs \<Rightarrow>
          (case spread (coalesce b (JArr [])) of
             Inl err \<Rightarrow> Inl err
           | Inr ys \<Rightarrow>
               Inr (Array_sort (by_freshness_desc e)
                      (Map_values (foldl (merge_step e) [] (xs @ ys))))))"

text \<open>
  The filter and the cap of \<^verbatim>\<open>updateHotPool\<close>:
  \<^verbatim>\<open>const pruned = merged.filter((item) => {
    const ts = Number(item?.last_touched ?? item?.last_modified ?? item?.created ?? 0) * 1000;
    if (!Number.isFinite(ts) || ts <= 0) return true;
    return now - ts <= ttlMs;
  });
  const limited = pruned.slice(0, Math.max(1, CONFIG.hotPoolLimit));\<close>
\<close>

definition pool_ts :: "env \<Rightarrow> json \<Rightarrow> number" where
  "pool_ts e item =
     num_mul
       (Number_of e
          (coalesce (coalesce (coalesce (js_get item ''last_touched'')
                                        (js_get item ''last_modified''))
                              (js_get item ''created''))
                    (JNum (Num 0))))
       (Num 1000)"

definition pool_keep :: "env \<Rightarrow> number \<Rightarrow> number \<Rightarrow> json \<Rightarrow> bool" where
  "pool_keep e now ttlMs item =
     (let ts = pool_ts e item in
      if \<not> Number_isFinite ts \<or> num_le ts (Num 0) then True
      else num_le (num_sub now ts) ttlMs)"

definition hotPoolTtlMs :: "env \<Rightarrow> number" where
  "hotPoolTtlMs e =
     num_mul (num_mul (num_mul (num_mul (hotPoolTtlDays e) (Num 24)) (Num 60)) (Num 60)) (Num 1000)"

definition pruned :: "env \<Rightarrow> number \<Rightarrow> json list \<Rightarrow> json list" where
  "pruned e now merged = filter (pool_keep e now (hotPoolTtlMs e)) merged"

definition limited :: "env \<Rightarrow> json list \<Rightarrow> json list" where
  "limited e pruned_items = Array_slice0 pruned_items (Math_max (Num 1) (hotPoolLimit e))"

text \<open>
  \<^verbatim>\<open>function dedupeTopicIds(items) {
    const set = new Set();
    for (const item of items) {
      const id = Number(item?.id);
      if (Number.isFinite(id) && id > 0) set.add(id);
    }
    return [...set];
  }\<close>
\<close>

definition Set_add :: "number list \<Rightarrow> number \<Rightarrow> number list" where
  "Set_add s x = (if x \<in> set s then s else s @ [x])"

definition dedupeTopicIds :: "env \<Rightarrow> json list \<Rightarrow> number list" where
  "dedupeTopicIds e items =
     foldl (\<lambda>s item.
              let id' = topic_id e item in
              if Number_isFinite id' \<and> num_gt id' (Num 0) then Set_add s id' else s)
           [] items"

text \<open>
  \<^verbatim>\<open>function snapshotFromLists(topicId, latest, hot) {
    const hit = [...(latest ?? []), ...(hot ?? [])].find((t) => Number(t?.id) === Number(topicId));
    return {
      id: Number(topicId),
      replies: Number(hit?.replies ?? 0),
      last_modified: Number(hit?.last_modified ?? hit?.last_touched ?? 0)
    };
  }\<close>
\<close>

definition snapshotFromLists :: "env \<Rightarrow> number \<Rightarrow> json \<Rightarrow> json \<Rightarrow> error + json" where
  "snapshotFromLists e topicId latest hot =
     (case spread (coalesce latest (JArr [])) of
        Inl err \<Rightarrow> Inl err
      | Inr xs \<Rightarrow>
          (case spread (coalesce hot (JArr [])) of
             Inl err \<Rightarrow> Inl err
           | Inr ys \<Rightarrow>
               (let hit = (case find (\<lambda>t. num_eq (topic_id e t) topicId) (xs @ ys) of
                             Some t \<Rightarrow> t | None \<Rightarrow> JUndef)
                in Inr (JObj
                     [(''id'', JNum topicId),
                      (''replies'', JNum (Number_of e (coalesce (js_get hit ''replies'') (JNum (Num 0))))),
                      (''last_modified'',
                         JNum (Number_of e
                           (coalesce (coalesce (js_get hit ''last_modified'') (js_get hit ''last_touched''))
                                     (JNum (Num 0)))))]))))"

section \<open>The state of a run\<close>

text \<open>
  One run of the script is sequential: every \<^verbatim>\<open>await\<close> suspends the single flow of
  \<^verbatim>\<open>main\<close> until it completes. Its state is the wall clock read by \<^verbatim>\<open>Date.now()\<close>
  (milliseconds), the module variable \<^verbatim>\<open>nextAllowedAt\<close>, the JSON files under
  \<^verbatim>\<open>data/\<close> (a missing or unparsable file is \<open>None\<close>), the \<^verbatim>\<open>report\<close> object of
  \<^verbatim>\<open>main\<close>, and a trace of the interactions with the outside world in the order they
  were made. The trace is not a variable of the script; it records what an observer of the
  process would see, and its length numbers the interactions for the oracles of \<open>env\<close>.

  Time passes only while the flow is suspended in a timer, a request, a write or a
  \<^verbatim>\<open>mkdir\<close> (reading a file takes none), and each suspension may take a further
  \<open>lag\<close>. The clock never goes back.
\<close>

datatype event = Sleep number | Request int string | Write string | Mkdir string

record list_report =
  status :: string
  count :: nat
  source :: string
  err :: "string option"

record report =
  started_at :: string
  finished_at :: "string option"
  lists :: "(string \<times> list_report) list"
  candidates :: nat
  refreshed :: nat
  skipped :: nat
  failed :: "(number \<times> string) list"

record state =
  clock :: int
  nextAllowedAt :: number
  files :: "string \<Rightarrow> json option"
  report :: report
  trace :: "event list"

definition Date_now :: "state \<Rightarrow> number" where
  "Date_now w = Num (of_int (clock w))"

text \<open>
  \<^verbatim>\<open>function sleep(ms) { return new Promise((resolve) => setTimeout(resolve, ms)); }\<close>
  The timer of Node takes a delay from 1 to \<open>2^31 - 1\<close> milliseconds, without its
  fraction; any other delay (smaller than 1, larger than \<open>2^31 - 1\<close>, \<^verbatim>\<open>NaN\<close>) is
  replaced by 1 millisecond. It fires no earlier than the delay it took.
\<close>

definition TIMEOUT_MAX :: int where
  "TIMEOUT_MAX = 2147483647"

definition timer_ms :: "number \<Rightarrow> int" where
  "timer_ms ms =
     (case ms of
        Num q \<Rightarrow> if 1 \<le> q \<and> q \<le> of_int TIMEOUT_MAX then \<lfloor>q\<rfloor> else 1
      | _ \<Rightarrow> 1)"

definition sleep :: "env \<Rightarrow> number \<Rightarrow> state \<Rightarrow> state" where
  "sleep e ms w =
     w\<lparr>clock := clock w + timer_ms ms + int (lag e (length (trace w))),
       trace := trace w @ [Sleep ms]\<rparr>"

definition fetch :: "env \<Rightarrow> string \<Rightarrow> string option \<Rightarrow> state \<Rightarrow> response \<times> state" where
  "fetch e url authToken w =
     (net e (length (trace w)) url authToken,
      w\<lparr>clock := clock w + int (lag e (length (trace w))),
        trace := trace w @ [Request (clock w) url]\<rparr>)"

text \<open>
  \<^verbatim>\<open>async function readJson(file, fallback) {
    try { const txt = await fs.readFile(file, "utf8"); return JSON.parse(txt); }
    catch { return fallback; }
  }\<close>
\<close>

definition readJson :: "state \<Rightarrow> string \<Rightarrow> json \<Rightarrow> json" where
  "readJson w file fallback = (case files w file of Some v \<Rightarrow> v | None \<Rightarrow> fallback)"

text \<open>
  \<^verbatim>\<open>writeJsonAtomic(file, data)\<close> creates the directory, writes \<^verbatim>\<open>file.tmp\<close> and renames
  it over \<^verbatim>\<open>file\<close>: either the file holds the new document afterwards, or one of the three
  steps threw and the file is what it was. Files are modelled at the level of JSON values,
  and the temporary file is left out.
\<close>

definition writeJsonAtomic :: "env \<Rightarrow> string \<Rightarrow> json \<Rightarrow> state \<Rightarrow> (error + unit) \<times> state" where
  "writeJsonAtomic e file data w =
     (let w' = w\<lparr>clock := clock w + int (lag e (length (trace w))),
                  trace := trace w @ [Write file]\<rparr>
      in case fs_failure e (length (trace w)) file of
           Some error \<Rightarrow> (Inl error, w')
         | None \<Rightarrow> (Inr (), w'\<lparr>files := (files w)(file \<mapsto> data)\<rparr>))"

fun ensureDirs :: "env \<Rightarrow> string list \<Rightarrow> state \<Rightarrow> (error + unit) \<times> state" where
  "ensureDirs e [] w = (Inr (), w)"
| "ensureDirs e (dir # dirs) w =
     (let w' = w\<lparr>clock := clock w + int (lag e (length (trace w))),
                  trace := trace w @ [Mkdir dir]\<rparr>
      in case fs_failure e (length (trace w)) dir of
           Some error \<Rightarrow> (Inl error, w')
         | None \<Rightarrow> ensureDirs e dirs w')"

section \<open>The rate-limited, retrying client\<close>

definition DATA_DIR :: string where "DATA_DIR = ''data''"
definition INDEX_DIR :: string where "INDEX_DIR = ''data/index''"
definition NODES_DIR :: string where "NODES_DIR = ''data/nodes''"
definition TOPICS_DIR :: string where "TOPICS_DIR = ''data/topics''"
definition REPLIES_DIR :: string where "REPLIES_DIR = ''data/replies''"
definition META_DIR :: string where "META_DIR = ''data/meta''"
definition STATE_FILE :: string where "STATE_FILE = ''data/meta/state.json''"
definition LAST_RUN_FILE :: string where "LAST_RUN_FILE = ''data/meta/last_run.json''"
definition HOT_POOL_FILE :: string where "HOT_POOL_FILE = ''data/index/hot_pool.json''"
definition LATEST_FILE :: string where "LATEST_FILE = ''data/index/latest.json''"
definition HOT_FILE :: string where "HOT_FILE = ''data/index/hot.json''"
definition NODES_FILE :: string where "NODES_FILE = ''data/nodes/all.json''"

definition topicFile :: "env \<Rightarrow> number \<Rightarrow> string" where
  "topicFile e topicId = ''data/topics/'' @ num_text e topicId @ ''.json''"

definition repliesFile :: "env \<Rightarrow> number \<Rightarrow> string" where
  "repliesFile e topicId = ''data/replies/'' @ num_text e topicId @ ''.json''"

definition endpoints_latest :: string where
  "endpoints_latest = ''https://www.v2ex.com/api/topics/latest.json''"

definition endpoints_hot :: string where
  "endpoints_hot = ''https://www.v2ex.com/api/topics/hot.json''"

definition endpoints_nodes :: string where
  "endpoints_nodes = ''https://www.v2ex.com/api/nodes/all.json''"

definition endpoints_topicById :: "env \<Rightarrow> number \<Rightarrow> string" where
  "endpoints_topicById e id' = ''https://www.v2ex.com/api/topics/show.json?id='' @ num_text e id'"

definition endpoints_repliesByTopicId :: "env \<Rightarrow> number \<Rightarrow> string" where
  "endpoints_repliesByTopicId e id' =
     ''https://www.v2ex.com/api/replies/show.json?topic_id='' @ num_text e id'"

definition endpoints_v2Replies :: "env \<Rightarrow> number \<Rightarrow> nat \<Rightarrow> string" where
  "endpoints_v2Replies e id' p =
     ''https://www.v2ex.com/api/v2/topics/'' @ num_text e id' @ ''/replies?p=''
       @ num_text e (Num (of_nat p))"

text \<open>
  \<^verbatim>\<open>async function waitRateLimit() {
    const now = Date.now();
    if (now < nextAllowedAt) { await sleep(nextAllowedAt - now); }
    nextAllowedAt = Date.now() + CONFIG.intervalMs;
  }\<close>
\<close>

definition waitRateLimit :: "env \<Rightarrow> state \<Rightarrow> state" where
  "waitRateLimit e w =
     (let now = Date_now w;
          w1 = (if num_lt now (nextAllowedAt w) then sleep e (num_sub (nextAllowedAt w) now) w else w)
      in w1\<lparr>nextAllowedAt := num_add (Date_now w1) (intervalMs e)\<rparr>)"

text \<open>
  \<^verbatim>\<open>async function fetchJsonWithRetry(url, options = {}) {
    let lastError = null;
    for (let i = 0; i < CONFIG.retries; i += 1) {
      try {
        await waitRateLimit();
        const response = await fetch(url, { headers: { ... } });
        if (!response.ok) { throw new Error(`HTTP ${response.status} for ${url}`); }
        return await response.json();
      } catch (error) {
        lastError = error;
        const backoff = CONFIG.intervalMs * (i + 1) * 2;
        await sleep(backoff);
      }
    }
    throw lastError ?? new Error(`Request failed: ${url}`);
  }\<close>
  \<open>attempt\<close> is the body of the \<^verbatim>\<open>try\<close> and \<open>response_result\<close> its last two statements;
  \<^verbatim>\<open>response.ok\<close> is a status from 200 to 299.
\<close>

definition response_ok :: "nat \<Rightarrow> bool" where
  "response_ok st = (200 \<le> st \<and> st \<le> 299)"

definition response_result :: "env \<Rightarrow> string \<Rightarrow> response \<Rightarrow> error + json" where
  "response_result e url response =
     (case response of
        Rejected error \<Rightarrow> Inl error
      | Response st body \<Rightarrow>
          if \<not> response_ok st
          then Inl (Error (''HTTP '' @ num_text e (Num (of_nat st)) @ '' for '' @ url))
          else body)"

definition attempt :: "env \<Rightarrow> string \<Rightarrow> string option \<Rightarrow> state \<Rightarrow> (error + json) \<times> state" where
  "attempt e url authToken w =
     (let w1 = waitRateLimit e w;
          (response, w2) = fetch e url authToken w1
      in (response_result e url response, w2))"

definition backoff :: "env \<Rightarrow> nat \<Rightarrow> number" where
  "backoff e i = num_mul (num_mul (intervalMs e) (Num (of_nat (i + 1)))) (Num 2)"

function fetchJsonWithRetry_from ::
    "env \<Rightarrow> string \<Rightarrow> string option \<Rightarrow> nat \<Rightarrow> error option \<Rightarrow> state \<Rightarrow> (error + json) \<times> state" where
  "fetchJsonWithRetry_from e url authToken i lastError w =
     (if i < retries e then
        (case attempt e url authToken w of
           (Inr data, w') \<Rightarrow> (Inr data, w')
         | (Inl error, w') \<Rightarrow>
             fetchJsonWithRetry_from e url authToken (i + 1) (Some error) (sleep e (backoff e i) w'))
      else
        (Inl (case lastError of
                Some error \<Rightarrow> error
              | None \<Rightarrow> Error (''Request failed: '' @ url)), w))"
  by pat_completeness auto
termination
  by (relation "measure (\<lambda>(e, url, authToken, i, lastError, w). retries e - i)") auto

declare fetchJsonWithRetry_from.simps [simp del]

definition fetchJsonWithRetry :: "env \<Rightarrow> string \<Rightarrow> string option \<Rightarrow> state \<Rightarrow> (error + json) \<times> state" where
  "fetchJsonWithRetry e url authToken w = fetchJsonWithRetry_from e url authToken 0 None w"

section \<open>Lists and the hot pool\<close>

text \<open>\<^verbatim>\<open>obj[name] = value\<close> on an object whose properties keep their insertion order.\<close>

definition obj_set :: "(string \<times> 'a) list \<Rightarrow> string \<Rightarrow> 'a \<Rightarrow> (string \<times> 'a) list" where
  "obj_set obj k v =
     (if map_of obj k = None then obj @ [(k, v)]
      else map (\<lambda>(k', v'). if k' = k then (k', v) else (k', v')) obj)"

text \<open>\<^verbatim>\<open>Array.isArray(data) ? data.length : 0\<close>\<close>

fun array_count :: "json \<Rightarrow> nat" where
  "array_count (JArr xs) = length xs"
| "array_count _ = 0"

text \<open>
  \<^verbatim>\<open>async function fetchAndPersistList(name, url, filePath, report) {
    const fallback = await readJson(filePath, []);
    try {
      const data = await fetchJsonWithRetry(url);
      await writeJsonAtomic(filePath, data);
      report.lists[name] = { status: "fetched", count: ..., source: url };
      return data;
    } catch (error) {
      report.lists[name] = { status: "fallback", count: ..., source: url,
                             error: String(error.message ?? error) };
      console.error(...);
      return fallback;
    }
  }\<close>
  Nothing in the \<^verbatim>\<open>catch\<close> block can throw, so the function always returns a value.
\<close>

definition set_list_report :: "string \<Rightarrow> list_report \<Rightarrow> state \<Rightarrow> state" where
  "set_list_report name entry w =
     w\<lparr>report := (report w)\<lparr>lists := obj_set (lists (report w)) name entry\<rparr>\<rparr>"

definition fallback_entry :: "json \<Rightarrow> string \<Rightarrow> error \<Rightarrow> list_report" where
  "fallback_entry fallback url error =
     \<lparr>status = ''fallback'', count = array_count fallback, source = url,
      err = Some (message error)\<rparr>"

definition fetchAndPersistList ::
    "env \<Rightarrow> string \<Rightarrow> string \<Rightarrow> string \<Rightarrow> state \<Rightarrow> json \<times> state" where
  "fetchAndPersistList e name url filePath w =
     (let fallback = readJson w filePath (JArr []) in
      case fetchJsonWithRetry e url None w of
        (Inl error, w1) \<Rightarrow> (fallback, set_list_report name (fallback_entry fallback url error) w1)
      | (Inr data, w1) \<Rightarrow>
          (case writeJsonAtomic e filePath data w1 of
             (Inl error, w2) \<Rightarrow> (fallback, set_list_report name (fallback_entry fallback url error) w2)
           | (Inr _, w2) \<Rightarrow>
               (data, set_list_report name
                        \<lparr>status = ''fetched'', count = array_count data, source = url, err = None\<rparr> w2)))"

text \<open>
  \<^verbatim>\<open>async function updateHotPool(currentHot) {
    const prevPool = await readJson(HOT_POOL_FILE, []);
    const merged = mergeTopicLists(prevPool, currentHot ?? []);
    const ttlMs = CONFIG.hotPoolTtlDays * 24 * 60 * 60 * 1000;
    const now = Date.now();
    const pruned = merged.filter(...);
    const limited = pruned.slice(0, Math.max(1, CONFIG.hotPoolLimit));
    await writeJsonAtomic(HOT_POOL_FILE, limited);
    return limited;
  }\<close>
\<close>

definition updateHotPool :: "env \<Rightarrow> json \<Rightarrow> state \<Rightarrow> (error + json list) \<times> state" where
  "updateHotPool e currentHot w =
     (let prevPool = readJson w HOT_POOL_FILE (JArr []) in
      case mergeTopicLists e prevPool (coalesce currentHot (JArr [])) of
        Inl error \<Rightarrow> (Inl error, w)
      | Inr merged \<Rightarrow>
          (let pool = limited e (pruned e (Date_now w) merged) in
           case writeJsonAtomic e HOT_POOL_FILE (JArr pool) w of
             (Inl error, w1) \<Rightarrow> (Inl error, w1)
           | (Inr _, w1) \<Rightarrow> (Inr pool, w1)))"

section \<open>Topics and replies\<close>

text \<open>
  \<^verbatim>\<open>async function fetchTopic(topicId) {
    const data = await fetchJsonWithRetry(endpoints.topicById(topicId));
    if (!Array.isArray(data) || data.length === 0) return null;
    return data[0];
  }\<close>
\<close>

definition fetchTopic :: "env \<Rightarrow> number \<Rightarrow> state \<Rightarrow> (error + json) \<times> state" where
  "fetchTopic e topicId w =
     (case fetchJsonWithRetry e (endpoints_topicById e topicId) None w of
        (Inl error, w1) \<Rightarrow> (Inl error, w1)
      | (Inr data, w1) \<Rightarrow>
          (case data of
             JArr (x # xs) \<Rightarrow> (Inr x, w1)
           | _ \<Rightarrow> (Inr JNull, w1)))"

text \<open>
  \<^verbatim>\<open>async function fetchReplies(topicId) {
    const token = process.env.V2EX_TOKEN;
    if (!token) {
      const data = await fetchJsonWithRetry(endpoints.repliesByTopicId(topicId));
      return Array.isArray(data) ? data : [];
    }
    const all = [];
    for (let p = 1; p <= 50; p += 1) {
      const page = await fetchJsonWithRetry(endpoints.v2Replies(topicId, p), { authToken: token });
      const items = Array.isArray(page?.result) ? page.result : Array.isArray(page) ? page : [];
      if (!items.length) break;
      all.push(...items);
      if (items.length < 50) break;
    }
    return all;
  }\<close>
\<close>

fun elements :: "json \<Rightarrow> json list" where
  "elements (JArr xs) = xs"
| "elements _ = []"

definition page_items :: "json \<Rightarrow> json list" where
  "page_items page =
     (if Array_isArray (js_get page ''result'') then elements (js_get page ''result'')
      else if Array_isArray page then elements page
      else [])"

function fetchReplies_pages ::
    "env \<Rightarrow> number \<Rightarrow> string \<Rightarrow> nat \<Rightarrow> json list \<Rightarrow> state \<Rightarrow> (error + json list) \<times> state" where
  "fetchReplies_pages e topicId token p all w =
     (if p \<le> 50 then
        (case fetchJsonWithRetry e (endpoints_v2Replies e topicId p) (Some token) w of
           (Inl error, w1) \<Rightarrow> (Inl error, w1)
         | (Inr page, w1) \<Rightarrow>
             (let items = page_items page in
              if items = [] then (Inr all, w1)
              else if length items < 50 then (Inr (all @ items), w1)
              else fetchReplies_pages e topicId token (p + 1) (all @ items) w1))
      else (Inr all, w))"
  by pat_completeness auto
termination
  by (relation "measure (\<lambda>(e, topicId, token, p, all, w). 51 - p)") auto

declare fetchReplies_pages.simps [simp del]

definition fetchReplies :: "env \<Rightarrow> number \<Rightarrow> state \<Rightarrow> (error + json list) \<times> state" where
  "fetchReplies e topicId w =
     (case V2EX_TOKEN e of
        Some token \<Rightarrow>
          if token = [] then
            (case fetchJsonWithRetry e (endpoints_repliesByTopicId e topicId) None w of
               (Inl error, w1) \<Rightarrow> (Inl error, w1)
             | (Inr data, w1) \<Rightarrow> (Inr (elements data), w1))
          else fetchReplies_pages e topicId token 1 [] w
      | None \<Rightarrow>
          (case fetchJsonWithRetry e (endpoints_repliesByTopicId e topicId) None w of
             (Inl error, w1) \<Rightarrow> (Inl error, w1)
           | (Inr data, w1) \<Rightarrow> (Inr (elements data), w1)))"

section \<open>The run\<close>

text \<open>
  The body of the \<^verbatim>\<open>try\<close> in the loop of \<^verbatim>\<open>main\<close>, in its two halves. First the topic:
  \<^verbatim>\<open>let topic = existingTopicDoc?.topic ?? null;
  if (shouldRefreshTopic) {
    topic = await fetchTopic(topicId);
    if (!topic) { throw new Error(`Empty topic payload for ${topicId}`); }
    const topicDoc = { topic, meta: { fetched_at: new Date().toISOString(),
                       source: endpoints.topicById(topicId), list_snapshot: listSnapshot } };
    await writeJsonAtomic(topicFile, topicDoc);
    report.topics.refreshed += 1;
  } else {
    report.topics.skipped += 1;
  }\<close>
\<close>

definition topicDoc :: "env \<Rightarrow> number \<Rightarrow> json \<Rightarrow> json \<Rightarrow> state \<Rightarrow> json" where
  "topicDoc e topicId topic listSnapshot w =
     JObj [(''topic'', topic),
           (''meta'', JObj [(''fetched_at'', JStr (toISOString e (clock w))),
                            (''source'', JStr (endpoints_topicById e topicId)),
                            (''list_snapshot'', listSnapshot)])]"

definition refresh_topic ::
    "env \<Rightarrow> number \<Rightarrow> json \<Rightarrow> json \<Rightarrow> bool \<Rightarrow> state \<Rightarrow> (error + json) \<times> state" where
  "refresh_topic e topicId existingTopicDoc listSnapshot shouldRefreshTopic w =
     (if shouldRefreshTopic then
        (case fetchTopic e topicId w of
           (Inl error, w1) \<Rightarrow> (Inl error, w1)
         | (Inr topic, w1) \<Rightarrow>
             if \<not> truthy topic
             then (Inl (Error (''Empty topic payload for '' @ num_text e topicId)), w1)
             else
               (case writeJsonAtomic e (topicFile e topicId)
                       (topicDoc e topicId topic listSnapshot w1) w1 of
                  (Inl error, w2) \<Rightarrow> (Inl error, w2)
                | (Inr _, w2) \<Rightarrow>
                    (Inr topic, w2\<lparr>report := (report w2)\<lparr>refreshed := refreshed (report w2) + 1\<rparr>\<rparr>)))
      else
        (Inr (coalesce (js_get existingTopicDoc ''topic'') JNull),
         w\<lparr>report := (report w)\<lparr>skipped := skipped (report w) + 1\<rparr>\<rparr>))"

text \<open>
  Then the replies:
  \<^verbatim>\<open>const shouldRefreshReplies =
    shouldRefreshTopic ||
    !existingRepliesDoc ||
    Number(existingRepliesDoc?.meta?.reply_count ?? -1) !== Number(topic?.replies ?? -2);
  if (shouldRefreshReplies && topic) {
    const replies = await fetchReplies(topicId);
    const totalCount = Number(topic.replies ?? replies.length);
    const fetchedCount = Array.isArray(replies) ? replies.length : 0;
    const repliesDoc = { replies, meta: { fetched_at: new Date().toISOString(),
        source: endpoints.repliesByTopicId(topicId), reply_count: totalCount,
        total_count: totalCount, fetched_count: fetchedCount,
        partial: fetchedCount < totalCount } };
    await writeJsonAtomic(repliesFile, repliesDoc);
  }\<close>
  \<^verbatim>\<open>fetchReplies\<close> returns an array on every path, so \<open>fetchedCount\<close> is its length.
\<close>

definition shouldRefreshReplies :: "env \<Rightarrow> bool \<Rightarrow> json \<Rightarrow> json \<Rightarrow> bool" where
  "shouldRefreshReplies e shouldRefreshTopic existingRepliesDoc topic =
     (shouldRefreshTopic \<or>
      \<not> truthy existingRepliesDoc \<or>
      \<not> num_eq (Number_of e (coalesce (js_get (js_get existingRepliesDoc ''meta'') ''reply_count'')
                                       (JNum (Num (- 1)))))
               (Number_of e (coalesce (js_get topic ''replies'') (JNum (Num (- 2))))))"

definition repliesDoc :: "env \<Rightarrow> number \<Rightarrow> json \<Rightarrow> json list \<Rightarrow> state \<Rightarrow> json" where
  "repliesDoc e topicId topic replies w =
     (let totalCount = Number_of e (coalesce (js_get topic ''replies'')
                                              (JNum (Num (of_nat (length replies)))));
          fetchedCount = Num (of_nat (length replies))
      in JObj [(''replies'', JArr replies),
               (''meta'', JObj [(''fetched_at'', JStr (toISOString e (clock w))),
                                (''source'', JStr (endpoints_repliesByTopicId e topicId)),
                                (''reply_count'', JNum totalCount),
                                (''total_count'', JNum totalCount),
                                (''fetched_count'', JNum fetchedCount),
                                (''partial'', JBool (num_lt fetchedCount totalCount))])])"

definition refresh_replies :: "env \<Rightarrow> number \<Rightarrow> json \<Rightarrow> state \<Rightarrow> (error + unit) \<times> state" where
  "refresh_replies e topicId topic w =
     (case fetchReplies e topicId w of
        (Inl error, w1) \<Rightarrow> (Inl error, w1)
      | (Inr replies, w1) \<Rightarrow>
          writeJsonAtomic e (repliesFile e topicId) (repliesDoc e topicId topic replies w1) w1)"

definition try_topic ::
    "env \<Rightarrow> number \<Rightarrow> json \<Rightarrow> json \<Rightarrow> json \<Rightarrow> bool \<Rightarrow> state \<Rightarrow> (error + unit) \<times> state" where
  "try_topic e topicId existingTopicDoc existingRepliesDoc listSnapshot shouldRefreshTopic w =
     (case refresh_topic e topicId existingTopicDoc listSnapshot shouldRefreshTopic w of
        (Inl error, w1) \<Rightarrow> (Inl error, w1)
      | (Inr topic, w1) \<Rightarrow>
          if shouldRefreshReplies e shouldRefreshTopic existingRepliesDoc topic \<and> truthy topic
          then refresh_replies e topicId topic w1
          else (Inr (), w1))"

text \<open>
  One iteration of \<^verbatim>\<open>for (const topicId of candidates)\<close>. The two reads, the snapshot and the
  decision stand before the \<^verbatim>\<open>try\<close>: what they throw leaves the loop and \<^verbatim>\<open>main\<close>.
  What the \<^verbatim>\<open>try\<close> throws is caught:
  \<^verbatim>\<open>catch (error) {
    report.topics.failed.push({ topic_id: topicId, error: String(error.message ?? error) });
    console.error(...);
  }\<close>
\<close>

definition push_failed :: "number \<Rightarrow> error \<Rightarrow> state \<Rightarrow> state" where
  "push_failed topicId error w =
     w\<lparr>report := (report w)\<lparr>failed := failed (report w) @ [(topicId, message error)]\<rparr>\<rparr>"

definition process_topic ::
    "env \<Rightarrow> json \<Rightarrow> json \<Rightarrow> number \<Rightarrow> number \<Rightarrow> number \<Rightarrow> state \<Rightarrow> (error + unit) \<times> state" where
  "process_topic e latest hot now ttlMs topicId w =
     (let existingTopicDoc = readJson w (topicFile e topicId) JNull;
          existingRepliesDoc = readJson w (repliesFile e topicId) JNull
      in case snapshotFromLists e topicId latest hot of
           Inl error \<Rightarrow> (Inl error, w)
         | Inr listSnapshot \<Rightarrow>
             (case decideRefreshTopic e existingTopicDoc listSnapshot now ttlMs of
                Inl error \<Rightarrow> (Inl error, w)
              | Inr shouldRefreshTopic \<Rightarrow>
                  (case try_topic e topicId existingTopicDoc existingRepliesDoc listSnapshot
                          shouldRefreshTopic w of
                     (Inl error, w1) \<Rightarrow> (Inr (), push_failed topicId error w1)
                   | (Inr _, w1) \<Rightarrow> (Inr (), w1))))"

fun for_candidates ::
    "env \<Rightarrow> json \<Rightarrow> json \<Rightarrow> number \<Rightarrow> number \<Rightarrow> number list \<Rightarrow> state \<Rightarrow> (error + unit) \<times> state" where
  "for_candidates e latest hot now ttlMs [] w = (Inr (), w)"
| "for_candidates e latest hot now ttlMs (topicId # rest) w =
     (case process_topic e latest hot now ttlMs topicId w of
        (Inl error, w1) \<Rightarrow> (Inl error, w1)
      | (Inr _, w1) \<Rightarrow> for_candidates e latest hot now ttlMs rest w1)"

text \<open>
  \<^verbatim>\<open>main\<close>. What it throws reaches \<^verbatim>\<open>main().catch\<close>, which sets the exit code to 1; that
  is the result \<open>Inl\<close>. The report is written to \<^verbatim>\<open>last_run.json\<close> as a JSON object.
\<close>

definition list_report_json :: "list_report \<Rightarrow> json" where
  "list_report_json r =
     JObj ([(''status'', JStr (status r)), (''count'', JNum (Num (of_nat (count r)))),
            (''source'', JStr (source r))]
           @ (case err r of Some m \<Rightarrow> [(''error'', JStr m)] | None \<Rightarrow> []))"

definition CONFIG_json :: "env \<Rightarrow> json" where
  "CONFIG_json e =
     JObj [(''concurrency'', JNum (concurrency e)),
           (''intervalMs'', JNum (intervalMs e)),
           (''refreshTtlHours'', JNum (refreshTtlHours e)),
           (''retries'', JNum (Num (of_nat (retries e)))),
           (''hotPoolLimit'', JNum (hotPoolLimit e)),
           (''hotPoolTtlDays'', JNum (hotPoolTtlDays e))]"

definition report_json :: "env \<Rightarrow> report \<Rightarrow> json" where
  "report_json e r =
     JObj [(''started_at'', JStr (started_at r)),
           (''finished_at'', (case finished_at r of Some t \<Rightarrow> JStr t | None \<Rightarrow> JNull)),
           (''config'', CONFIG_json e),
           (''lists'', JObj (map (\<lambda>(k, v). (k, list_report_json v)) (lists r))),
           (''topics'',
              JObj [(''candidates'', JNum (Num (of_nat (candidates r)))),
                    (''refreshed'', JNum (Num (of_nat (refreshed r)))),
                    (''skipped'', JNum (Num (of_nat (skipped r)))),
                    (''failed'',
                       JArr (map (\<lambda>(i, m). JObj [(''topic_id'', JNum i), (''error'', JStr m)])
                                 (failed r)))])]"

definition refreshTtlMs :: "env \<Rightarrow> number" where
  "refreshTtlMs e = num_mul (num_mul (num_mul (refreshTtlHours e) (Num 60)) (Num 60)) (Num 1000)"

definition nextState :: "env \<Rightarrow> json \<Rightarrow> number list \<Rightarrow> state \<Rightarrow> json" where
  "nextState e previousState candidateIds w =
     JObj [(''last_success_at'', JStr (toISOString e (clock w))),
           (''candidate_topic_ids'', JArr (map JNum candidateIds)),
           (''refreshed_topic_count'', JNum (Num (of_nat (refreshed (report w))))),
           (''failed_topic_count'', JNum (Num (of_nat (length (failed (report w)))))),
           (''previous_last_success_at'',
              coalesce (js_get previousState ''last_success_at'') JNull)]"

definition persist_state :: "env \<Rightarrow> json \<Rightarrow> number list \<Rightarrow> state \<Rightarrow> (error + unit) \<times> state" where
  "persist_state e previousState candidateIds w =
     (if nullish previousState
      then (Inl (Error ''TypeError: cannot read properties of null or undefined''), w)
      else
        (let next = nextState e previousState candidateIds w;
             w1 = w\<lparr>report := (report w)\<lparr>finished_at := Some (toISOString e (clock w))\<rparr>\<rparr>
         in case writeJsonAtomic e STATE_FILE next w1 of
              (Inl error, w2) \<Rightarrow> (Inl error, w2)
            | (Inr _, w2) \<Rightarrow> writeJsonAtomic e LAST_RUN_FILE (report_json e (report w2)) w2))"

definition sync_topics ::
    "env \<Rightarrow> json \<Rightarrow> json \<Rightarrow> json \<Rightarrow> json list \<Rightarrow> state \<Rightarrow> (error + unit) \<times> state" where
  "sync_topics e previousState latest hot hotPool w =
     (case spread (coalesce latest (JArr [])) of
        Inl error \<Rightarrow> (Inl error, w)
      | Inr xs \<Rightarrow>
          (let candidateIds = dedupeTopicIds e (xs @ hotPool);
               w1 = w\<lparr>report := (report w)\<lparr>candidates := length candidateIds\<rparr>\<rparr>
           in case for_candidates e latest hot (Date_now w1) (refreshTtlMs e) candidateIds w1 of
                (Inl error, w2) \<Rightarrow> (Inl error, w2)
              | (Inr _, w2) \<Rightarrow> persist_state e previousState candidateIds w2))"

definition main :: "env \<Rightarrow> state \<Rightarrow> (error + unit) \<times> state" where
  "main e w0 =
     (case ensureDirs e [INDEX_DIR, NODES_DIR, TOPICS_DIR, REPLIES_DIR, META_DIR] w0 of
        (Inl error, w1) \<Rightarrow> (Inl error, w1)
      | (Inr _, w1) \<Rightarrow>
          (let previousState = readJson w1 STATE_FILE (JObj []);
               w2 = w1\<lparr>report := \<lparr>started_at = toISOString e (clock w0), finished_at = None,
                                     lists = [], candidates = 0, refreshed = 0, skipped = 0,
                                     failed = []\<rparr>\<rparr>;
               (latest, w3) = fetchAndPersistList e ''latest'' endpoints_latest LATEST_FILE w2;
               (hot, w4) = fetchAndPersistList e ''hot'' endpoints_hot HOT_FILE w3
           in case updateHotPool e hot w4 of
                (Inl error, w5) \<Rightarrow> (Inl error, w5)
              | (Inr hotPool, w5) \<Rightarrow>
                  (let w6 = set_list_report ''hot_pool''
                              \<lparr>status = ''updated'', count = length hotPool,
                               source = HOT_POOL_FILE, err = None\<rparr> w5;
                       (nodes, w7) = fetchAndPersistList e ''nodes'' endpoints_nodes NODES_FILE w6
                   in sync_topics e previousState latest hot hotPool w7)))"

section \<open>Auxiliary notions and example inputs\<close>

text \<open>
  The specification describes the freshness score as the maximum of the timestamps that are
  present. \<open>freshness_max\<close> is that description, to be compared with \<open>topicFreshness\<close>.
\<close>

definition present_timestamps :: "env \<Rightarrow> json \<Rightarrow> number list" where
  "present_timestamps e topic =
     map (Number_of e)
       (filter (\<lambda>v. \<not> nullish v)
          [js_get topic ''last_touched'', js_get topic ''last_modified'', js_get topic ''created''])"

definition freshness_max :: "env \<Rightarrow> json \<Rightarrow> number" where
  "freshness_max e topic =
     (case present_timestamps e topic of
        [] \<Rightarrow> Num 0
      | t # ts \<Rightarrow> foldl Math_max t ts)"

text \<open>The invariant of the \<^verbatim>\<open>Map\<close> in \<open>mergeTopicLists\<close>: one entry per key, filed under its own id.\<close>

definition keyed :: "env \<Rightarrow> js_map \<Rightarrow> bool" where
  "keyed e m = (distinct (map fst m) \<and> (\<forall>(k, v) \<in> set m. topic_id e v = k))"

text \<open>
  The retry schedule as the specification words it: the state in which attempt \<open>n + 1\<close>
  starts when the attempts \<open>1..n\<close> have failed, each failed attempt \<open>n\<close> being followed by a
  sleep of \<open>intervalMs * n * 2\<close>.
\<close>

fun before_attempt :: "env \<Rightarrow> string \<Rightarrow> string option \<Rightarrow> nat \<Rightarrow> state \<Rightarrow> state" where
  "before_attempt e url authToken 0 w = w"
| "before_attempt e url authToken (Suc n) w =
     sleep e (num_mul (num_mul (intervalMs e) (Num (of_nat (Suc n)))) (Num 2))
       (snd (attempt e url authToken (before_attempt e url authToken n w)))"

text \<open>The requests in a trace, and the instants at which they were issued.\<close>

fun count_requests :: "event list \<Rightarrow> nat" where
  "count_requests [] = 0"
| "count_requests (Request t url # evs) = Suc (count_requests evs)"
| "count_requests (ev # evs) = count_requests evs"

fun request_instants :: "event list \<Rightarrow> int list" where
  "request_instants [] = []"
| "request_instants (Request t url # evs) = t # request_instants evs"
| "request_instants (ev # evs) = request_instants evs"

text \<open>Consecutive instants are at least \<open>d\<close> apart.\<close>

fun spaced :: "rat \<Rightarrow> int list \<Rightarrow> bool" where
  "spaced d (t # t' # ts) = (d \<le> of_int t' - of_int t \<and> spaced d (t' # ts))"
| "spaced d ts = True"

text \<open>A whole number of milliseconds.\<close>

definition whole :: "rat \<Rightarrow> bool" where
  "whole q = (of_int \<lfloor>q\<rfloor> = q)"

text \<open>An interval that the timer can wait for: a whole number not above \<open>2^31 - 1\<close>.\<close>

definition gate_interval :: "env \<Rightarrow> rat \<Rightarrow> bool" where
  "gate_interval e d = (intervalMs e = Num d \<and> whole d \<and> d \<le> of_int TIMEOUT_MAX)"

text \<open>
  The invariant of the rate gate: the requests made so far are spaced, none was issued
  after the current instant, and \<^verbatim>\<open>nextAllowedAt\<close> is a whole number, at least one interval
  after each of them and at most one interval ahead of the clock.
\<close>

definition gate_ok :: "rat \<Rightarrow> state \<Rightarrow> bool" where
  "gate_ok d w =
     (spaced d (request_instants (trace w))
      \<and> (\<forall>t \<in> set (request_instants (trace w)). t \<le> clock w)
      \<and> (case nextAllowedAt w of
            Num a \<Rightarrow>
              whole a \<and> a \<le> of_int (clock w) + max d 0
              \<and> (\<forall>t \<in> set (request_instants (trace w)). of_int t + d \<le> a)
          | _ \<Rightarrow> False))"

text \<open>The addresses requested in a trace.\<close>

fun request_urls :: "event list \<Rightarrow> string list" where
  "request_urls [] = []"
| "request_urls (Request t url # evs) = url # request_urls evs"
| "request_urls (ev # evs) = request_urls evs"

text \<open>The address of the first request that \<open>fetchReplies\<close> makes.\<close>

definition replies_url :: "env \<Rightarrow> number \<Rightarrow> string" where
  "replies_url e topicId =
     (case V2EX_TOKEN e of
        Some token \<Rightarrow>
          if token = [] then endpoints_repliesByTopicId e topicId
          else endpoints_v2Replies e topicId 1
      | None \<Rightarrow> endpoints_repliesByTopicId e topicId)"

text \<open>A value that the spreads of the script accept (after their \<^verbatim>\<open>?? []\<close>).\<close>

definition iterable :: "json \<Rightarrow> bool" where
  "iterable v = (case spread (coalesce v (JArr [])) of Inl error \<Rightarrow> False | Inr xs \<Rightarrow> True)"

text \<open>
  A concrete environment: the default configuration, a network that is down, a file
  system that never fails, no lag, and just enough of the platform functions for the
  examples below.
\<close>

definition env0 :: env where
  "env0 = \<lparr>intervalMs = Num 350, refreshTtlHours = Num 24, concurrency = Num 2, retries = 3,
           hotPoolLimit = Num 600, hotPoolTtlDays = Num 30, V2EX_TOKEN = None,
           ToNumber_object = (\<lambda>v. NaN),
           Date_parse = (\<lambda>v. if v = JStr ''1970-01-01T00:00:01.000Z'' then Num 1000 else NaN),
           toISOString = (\<lambda>t. ''1970-01-01T00:00:01.000Z''),
           num_text = (\<lambda>n. if n = Num 1 then ''1'' else if n = Num 2 then ''2'' else ''n''),
           net = (\<lambda>k url auth. Rejected (Error ''down'')),
           fs_failure = (\<lambda>k path. None),
           lag = (\<lambda>k. 0)\<rparr>"

text \<open>The same with a network that answers the third request of a run.\<close>

definition topic1 :: json where
  "topic1 = JObj [(''id'', JNum (Num 1)), (''replies'', JNum (Num 10))]"

definition env1 :: env where
  "env1 = env0\<lparr>net := (\<lambda>k url auth. if k < 4 then Rejected (Error ''down'')
                                        else Response 200 (Inr (JArr [topic1])))\<rparr>"

text \<open>A network that answers every request at once, and the same with an interval of
  3000000000 milliseconds.\<close>

definition env2 :: env where
  "env2 = env0\<lparr>net := (\<lambda>k url auth. Response 200 (Inr (JArr [topic1])))\<rparr>"

definition env3 :: env where
  "env3 = env2\<lparr>intervalMs := Num 3000000000\<rparr>"

definition doc0 :: json where
  "doc0 = JObj [(''topic'', JObj [(''id'', JNum (Num 5)), (''replies'', JNum (Num 2))]),
                (''meta'', JObj [(''fetched_at'', JStr ''1970-01-01T00:00:01.000Z''),
                                 (''list_snapshot'',
                                    JObj [(''id'', JNum (Num 5)), (''replies'', JNum (Num 2)),
                                          (''last_modified'', JNum (Num 100))])])]"

definition replies_doc0 :: json where
  "replies_doc0 = JObj [(''replies'', JArr [JObj [], JObj []]),
                        (''meta'', JObj [(''reply_count'', JNum (Num 2)),
                                         (''total_count'', JNum (Num 2)),
                                         (''fetched_count'', JNum (Num 2)),
                                         (''partial'', JBool False)])]"

definition snap0 :: json where
  "snap0 = JObj [(''id'', JNum (Num 5)), (''replies'', JNum (Num 2)),
                 (''last_modified'', JNum (Num 100))]"

definition edited_topic :: json where
  "edited_topic = JObj [(''id'', JNum (Num 7)), (''last_touched'', JNum (Num 100)),
                        (''last_modified'', JNum (Num 500)), (''created'', JNum (Num 50))]"

text \<open>
  Hot-pool entries seen on day 40 (\<open>now = 3456000000\<close> ms) with a TTL of 30 days: one touched
  in the first second, one touched on day 30, a newer copy of it, and one without timestamp.
\<close>

definition old_entry :: json where
  "old_entry = JObj [(''id'', JNum (Num 1)), (''last_touched'', JNum (Num 1))]"

definition recent_entry :: json where
  "recent_entry = JObj [(''id'', JNum (Num 2)), (''last_touched'', JNum (Num 2592000))]"

definition newer_entry :: json where
  "newer_entry = JObj [(''id'', JNum (Num 2)), (''last_touched'', JNum (Num 2600000))]"

definition undated_entry :: json where
  "undated_entry = JObj [(''id'', JNum (Num 3))]"

definition empty_report :: report where
  "empty_report = \<lparr>started_at = [], finished_at = None, lists = [], candidates = 0,
                    refreshed = 0, skipped = 0, failed = []\<rparr>"

definition state0 :: state where
  "state0 = \<lparr>clock = 3456000000, nextAllowedAt = Num 0,
             files = (\<lambda>p. if p = HOT_POOL_FILE then Some (JArr [old_entry, recent_entry])
                           else if p = LATEST_FILE then Some (JArr [recent_entry])
                           else None),
             report = empty_report, trace = []\<rparr>"

text \<open>The same files, with an object instead of an array in the file of the latest list.\<close>

definition state1 :: state where
  "state1 = state0\<lparr>files := (files state0)(LATEST_FILE \<mapsto> JObj [])\<rparr>"

text \<open>
  The files of the lists and of the hot pool. The loop over the candidates and the end of
  the run keep them, the entries of the lists in the report and the number of candidates.
\<close>

definition list_files :: "string list" where
  "list_files = [LATEST_FILE, HOT_FILE, HOT_POOL_FILE, NODES_FILE]"

definition lists_kept :: "state \<Rightarrow> state \<Rightarrow> bool" where
  "lists_kept w w' =
     (lists (report w') = lists (report w)
      \<and> candidates (report w') = candidates (report w)
      \<and> (\<forall>p \<in> set list_files. files w' p = files w p))"

section \<open>The refresh decision\<close>



section \<open>Evaluating the examples\<close>

lemma env0_simps:
  "intervalMs env0 = Num 350" "refreshTtlHours env0 = Num 24" "retries env0 = 3"
  "hotPoolLimit env0 = Num 600" "hotPoolTtlDays env0 = Num 30" "V2EX_TOKEN env0 = None"
  "ToNumber_object env0 v = NaN"
  "Date_parse env0 v = (if v = JStr ''1970-01-01T00:00:01.000Z'' then Num 1000 else NaN)"
  "toISOString env0 t = ''1970-01-01T00:00:01.000Z''"
  "num_text env0 n = (if n = Num 1 then ''1'' else if n = Num 2 then ''2'' else ''n'')"
  "net env0 k url auth = Rejected (Error ''down'')"
  "fs_failure env0 k path = None" "lag env0 k = 0"
  by (simp_all add: env0_def)

section \<open>The freshness score\<close>

text \<open>
  C4, as the specification states it: the freshness score is the maximum of
  \<open>last_touched\<close>, \<open>last_modified\<close> and \<open>created\<close> over the fields that are present. It is
  not: for a topic touched at 100 and modified at 500 the score is 100.
\<close>

theorem topicFreshness_not_max:
  "topicFreshness env0 edited_topic = Num 100 \<and> freshness_max env0 edited_topic = Num 500
   \<and> topicFreshness env0 edited_topic \<noteq> freshness_max env0 edited_topic"
  by (simp add: topicFreshness_def freshness_max_def present_timestamps_def edited_topic_def
      coalesce_def)

text \<open>
  C4, as the code has it: the score is \<^verbatim>\<open>Number\<close> of the first field that is present
  (neither null nor undefined) in the order \<open>last_touched\<close>, \<open>last_modified\<close>, \<open>created\<close>,
  and 0 when none is present.
\<close>

theorem topicFreshness_first_present:
  "topicFreshness e topic =
     (case filter (\<lambda>v. \<not> nullish v)
             [js_get topic ''last_touched'', js_get topic ''last_modified'', js_get topic ''created''] of
        [] \<Rightarrow> Num 0
      | v # vs \<Rightarrow> Number_of e v)"
  by (simp add: topicFreshness_def coalesce_def)

theorem topicFreshness_first_present_witness:
  "topicFreshness env0 edited_topic = Num 100
   \<and> topicFreshness env0 (JObj [(''id'', JNum (Num 7)), (''last_touched'', JNull), (''created'', JNum (Num 50))]) = Num 50
   \<and> topicFreshness env0 (JObj [(''id'', JNum (Num 7))]) = Num 0"
  using topicFreshness_first_present [of env0 edited_topic]
    topicFreshness_first_present [of env0 "JObj [(''id'', JNum (Num 7)), (''last_touched'', JNull), (''created'', JNum (Num 50))]"]
    topicFreshness_first_present [of env0 "JObj [(''id'', JNum (Num 7))]"]
  by (simp add: edited_topic_def)

section \<open>The hot pool\<close>

lemma keyed_Map_set: "keyed e m \<Longrightarrow> topic_id e v = k \<Longrightarrow> keyed e (Map_set m k v)"
proof (cases "map_of m k = None")
  case True
  assume "keyed e m" "topic_id e v = k"
  with True show ?thesis
    by (auto simp: keyed_def Map_set_def map_of_eq_None_iff)
next
  case False
  assume k: "keyed e m" "topic_id e v = k"
  let ?m' = "map (\<lambda>(k', v'). if k' = k then (k', v) else (k', v')) m"
  have "map fst ?m' = map fst m"
    by (induction m) auto
  with k have "distinct (map fst ?m')"
    by (simp only: keyed_def)
  moreover from k have "\<forall>(k', v') \<in> set ?m'. topic_id e v' = k'"
    by (auto simp: keyed_def split: if_splits)
  moreover from False have "Map_set m k v = ?m'"
    by (simp only: Map_set_def if_False)
  ultimately show ?thesis
    by (simp only: keyed_def simp_thms)
qed

lemma keyed_merge_step: "keyed e m \<Longrightarrow> keyed e (merge_step e m item)"
  by (simp add: merge_step_def Let_def keyed_Map_set)

lemma keyed_foldl: "keyed e m \<Longrightarrow> keyed e (foldl (merge_step e) m items)"
  by (induction items arbitrary: m) (simp_all add: keyed_merge_step)

lemma keyed_values: "keyed e m \<Longrightarrow> distinct (map (topic_id e) (Map_values m))"
proof -
  assume k: "keyed e m"
  then have "map (topic_id e) (Map_values m) = map fst m"
    by (auto simp: keyed_def Map_values_def)
  with k show ?thesis by (simp add: keyed_def)
qed

lemma set_sort_insert: "set (sort_insert cmp x ys) = insert x (set ys)"
  by (induction ys) auto

lemma distinct_sort_insert:
  "distinct (map f (sort_insert cmp x ys)) = distinct (map f (x # ys))"
  by (induction ys) (auto simp: set_sort_insert)

lemma set_Array_sort: "set (Array_sort cmp xs) = set xs"
  by (induction xs) (simp_all add: Array_sort_def set_sort_insert)

lemma distinct_Array_sort: "distinct (map f (Array_sort cmp xs)) = distinct (map f xs)"
proof (induction xs)
  case Nil
  show ?case by (simp add: Array_sort_def)
next
  case (Cons x xs)
  have "Array_sort cmp (x # xs) = sort_insert cmp x (Array_sort cmp xs)"
    by (simp add: Array_sort_def)
  with Cons show ?case
    by (simp add: distinct_sort_insert set_Array_sort)
qed

lemma mergeTopicLists_distinct:
  "mergeTopicLists e a b = Inr merged \<Longrightarrow> distinct (map (topic_id e) merged)"
proof -
  have "keyed e []" by (simp add: keyed_def)
  then have "\<And>items. distinct (map (topic_id e) (Map_values (foldl (merge_step e) [] items)))"
    by (simp add: keyed_foldl keyed_values)
  then have "\<And>xs ys. distinct (map (topic_id e)
      (Map_values (foldl (merge_step e) (foldl (merge_step e) [] xs) ys)))"
    by (simp only: foldl_append [symmetric])
  moreover assume "mergeTopicLists e a b = Inr merged"
  ultimately show ?thesis
    by (auto simp: mergeTopicLists_def distinct_Array_sort split: sum.splits)
qed

lemma Array_slice0_take: "\<exists>n. Array_slice0 xs end = take n xs"
proof (cases "end")
  case (Num q)
  then show ?thesis by (auto simp: Array_slice0_def Let_def)
next
  case NaN
  then have "Array_slice0 xs end = take 0 xs" by (simp add: Array_slice0_def)
  then show ?thesis by blast
next
  case Infinity
  then have "Array_slice0 xs end = take (length xs) xs" by (simp add: Array_slice0_def)
  then show ?thesis by blast
next
  case NegInfinity
  then have "Array_slice0 xs end = take 0 xs" by (simp add: Array_slice0_def)
  then show ?thesis by blast
qed

lemma distinct_limited_pruned:
  "distinct (map f merged) \<Longrightarrow> distinct (map f (limited e (pruned e now merged)))"
proof -
  assume d: "distinct (map f merged)"
  obtain n where "limited e (pruned e now merged) = take n (pruned e now merged)"
    using Array_slice0_take unfolding limited_def by blast
  moreover from d have "distinct (map f (pruned e now merged))"
    by (simp add: pruned_def distinct_map_filter)
  ultimately show ?thesis
    by (simp add: take_map [symmetric])
qed

lemma Math_max_1:
  "l \<noteq> NaN \<Longrightarrow> Math_max (Num 1) l = Infinity \<or> (\<exists>q. Math_max (Num 1) l = Num q \<and> 1 \<le> q)"
  by (cases l) auto

lemma length_limited:
  "hotPoolLimit e \<noteq> NaN \<Longrightarrow>
     num_le (Num (of_nat (length (limited e xs)))) (Math_max (Num 1) (hotPoolLimit e))"
proof -
  assume "hotPoolLimit e \<noteq> NaN"
  then consider "Math_max (Num 1) (hotPoolLimit e) = Infinity"
    | q where "Math_max (Num 1) (hotPoolLimit e) = Num q" "1 \<le> q"
    using Math_max_1 by blast
  then show ?thesis
  proof cases
    case 1
    then show ?thesis by (simp add: num_le_def)
  next
    case 2
    then have "\<not> q < 0" "\<not> \<lfloor>q\<rfloor> < 0"
      by simp_all
    with 2 have "length (limited e xs) \<le> nat \<lfloor>q\<rfloor>"
      by (simp add: limited_def Array_slice0_def Let_def)
    then have "rat_of_nat (length (limited e xs)) \<le> of_nat (nat \<lfloor>q\<rfloor>)"
      by (simp only: of_nat_le_iff)
    also from 2 have "\<dots> = of_int \<lfloor>q\<rfloor>" by simp
    also have "\<dots> \<le> q" by simp
    finally show ?thesis using 2 by (simp add: num_le_def)
  qed
qed

lemma updateHotPool_result:
  "updateHotPool e currentHot w = (Inr pool, w') \<Longrightarrow>
     \<exists>merged. mergeTopicLists e (readJson w HOT_POOL_FILE (JArr [])) (coalesce currentHot (JArr [])) = Inr merged
       \<and> pool = limited e (pruned e (Date_now w) merged)"
  by (auto simp: updateHotPool_def Let_def split: sum.splits prod.splits)

lemma coalesce_idem: "coalesce (coalesce a b) b = coalesce a b"
  by (simp add: coalesce_def)

lemma merged0:
  "mergeTopicLists env0 (JArr [old_entry, recent_entry]) (JArr [newer_entry, undated_entry])
     = Inr [newer_entry, old_entry, undated_entry]"
  by (simp add: mergeTopicLists_def env0_simps coalesce_def
      merge_step_def topic_id_def Map_get_def Map_set_def Map_values_def topicFreshness_def
      Array_sort_def by_freshness_desc_def num_sub_def num_gt_def num_ge_def num_le_def Let_def
      old_entry_def recent_entry_def newer_entry_def undated_entry_def)

lemma pruned0:
  "pruned env0 (Num 3456000000) [newer_entry, old_entry, undated_entry] = [newer_entry, undated_entry]"
  by (simp add: env0_simps pruned_def pool_keep_def pool_ts_def hotPoolTtlMs_def
      coalesce_def num_le_def num_sub_def Let_def old_entry_def newer_entry_def undated_entry_def)

lemma limited0: "limited env0 [newer_entry, undated_entry] = [newer_entry, undated_entry]"
  by (simp add: limited_def env0_simps Array_slice0_def)

lemma pool0:
  "fst (updateHotPool env0 (JArr [newer_entry, undated_entry]) state0) = Inr [newer_entry, undated_entry]"
proof -
  have "readJson state0 HOT_POOL_FILE (JArr []) = JArr [old_entry, recent_entry]"
    by (simp add: readJson_def state0_def)
  moreover have "Date_now state0 = Num 3456000000"
    by (simp add: Date_now_def state0_def)
  moreover have "coalesce (JArr [newer_entry, undated_entry]) (JArr []) = JArr [newer_entry, undated_entry]"
    by (simp add: coalesce_def)
  ultimately show ?thesis
    by (simp add: updateHotPool_def merged0 pruned0 limited0 writeJsonAtomic_def Let_def env0_simps)
qed

text \<open>
  C2. Whenever \<open>updateHotPool\<close> returns a pool, no two of its entries have the same id and
  its length is at most \<^verbatim>\<open>Math.max(1, CONFIG.hotPoolLimit)\<close> (for a limit that is a number).
  It does return one, and writes it to \<^verbatim>\<open>hot_pool.json\<close>, when the previous pool and the
  fresh list are arrays (or strings, or absent) and the write succeeds.
\<close>

theorem updateHotPool_distinct_capped:
  "(\<forall>pool w'. updateHotPool e currentHot w = (Inr pool, w') \<longrightarrow>
      distinct (map (topic_id e) pool)
      \<and> (hotPoolLimit e \<noteq> NaN \<longrightarrow>
           num_le (Num (of_nat (length pool))) (Math_max (Num 1) (hotPoolLimit e))))
   \<and> (\<forall>prev cur.
        spread (coalesce (readJson w HOT_POOL_FILE (JArr [])) (JArr [])) = Inr prev
        \<and> spread (coalesce currentHot (JArr [])) = Inr cur
        \<and> fs_failure e (length (trace w)) HOT_POOL_FILE = None
        \<longrightarrow> (\<exists>pool w'. updateHotPool e currentHot w = (Inr pool, w')
               \<and> files w' HOT_POOL_FILE = Some (JArr pool)))"
proof (intro conjI allI impI)
  fix pool w'
  assume run: "updateHotPool e currentHot w = (Inr pool, w')"
  then obtain merged where
    m: "mergeTopicLists e (readJson w HOT_POOL_FILE (JArr [])) (coalesce currentHot (JArr [])) = Inr merged"
    and p: "pool = limited e (pruned e (Date_now w) merged)"
    using updateHotPool_result by blast
  from m have "distinct (map (topic_id e) merged)" by (rule mergeTopicLists_distinct)
  with p show "distinct (map (topic_id e) pool)" by (simp add: distinct_limited_pruned)
  assume "hotPoolLimit e \<noteq> NaN"
  with p show "num_le (Num (of_nat (length pool))) (Math_max (Num 1) (hotPoolLimit e))"
    by (simp add: length_limited)
next
  fix prev cur
  assume "spread (coalesce (readJson w HOT_POOL_FILE (JArr [])) (JArr [])) = Inr prev
        \<and> spread (coalesce currentHot (JArr [])) = Inr cur
        \<and> fs_failure e (length (trace w)) HOT_POOL_FILE = None"
  then show "\<exists>pool w'. updateHotPool e currentHot w = (Inr pool, w')
               \<and> files w' HOT_POOL_FILE = Some (JArr pool)"
    by (simp add: updateHotPool_def mergeTopicLists_def coalesce_idem writeJsonAtomic_def Let_def)
qed

theorem updateHotPool_distinct_capped_witness:
  "fst (updateHotPool env0 (JArr [newer_entry, undated_entry]) state0) = Inr [newer_entry, undated_entry]
   \<and> distinct (map (topic_id env0) [newer_entry, undated_entry])
   \<and> num_le (Num (of_nat (length [newer_entry, undated_entry]))) (Num 600)
   \<and> (\<exists>pool w'. updateHotPool env0 (JArr [newer_entry, undated_entry]) state0 = (Inr pool, w')
          \<and> files w' HOT_POOL_FILE = Some (JArr pool))"
proof -
  obtain w' where run: "updateHotPool env0 (JArr [newer_entry, undated_entry]) state0
      = (Inr [newer_entry, undated_entry], w')"
    using pool0 by (cases "updateHotPool env0 (JArr [newer_entry, undated_entry]) state0") simp
  have "hotPoolLimit env0 \<noteq> NaN" "Math_max (Num 1) (hotPoolLimit env0) = Num 600"
    by (simp_all add: env0_simps)
  moreover have "spread (coalesce (readJson state0 HOT_POOL_FILE (JArr [])) (JArr []))
      = Inr [old_entry, recent_entry]"
    by (simp add: readJson_def state0_def coalesce_def)
  moreover have "spread (coalesce (JArr [newer_entry, undated_entry]) (JArr []))
      = Inr [newer_entry, undated_entry]"
    by (simp add: coalesce_def)
  moreover have "fs_failure env0 (length (trace state0)) HOT_POOL_FILE = None"
    by (simp add: env0_simps)
  ultimately show ?thesis
    using run
    using updateHotPool_distinct_capped [of env0 "JArr [newer_entry, undated_entry]" state0]
    by simp
qed











section \<open>Retries\<close>

lemma backoff_Suc:
  "backoff e i = num_mul (num_mul (intervalMs e) (Num (of_nat (Suc i)))) (Num 2)"
  by (simp add: backoff_def)

lemma retry_step_fail:
  "i < retries e \<Longrightarrow> attempt e url auth w = (Inl er, w') \<Longrightarrow>
     fetchJsonWithRetry_from e url auth i le w =
       fetchJsonWithRetry_from e url auth (Suc i) (Some er) (sleep e (backoff e i) w')"
  by (subst fetchJsonWithRetry_from.simps) simp

lemma retry_step_ok:
  "i < retries e \<Longrightarrow> attempt e url auth w = (Inr data, w') \<Longrightarrow>
     fetchJsonWithRetry_from e url auth i le w = (Inr data, w')"
  by (subst fetchJsonWithRetry_from.simps) simp

lemma retry_step_done:
  "\<not> i < retries e \<Longrightarrow>
     fetchJsonWithRetry_from e url auth i (Some er) w = (Inl er, w)"
  by (subst fetchJsonWithRetry_from.simps) simp

lemma retry_succeeds_at:
  assumes k: "k < retries e"
    and failed: "\<forall>j<k. isl (fst (attempt e url auth (before_attempt e url auth j w0)))"
    and ok: "fst (attempt e url auth (before_attempt e url auth k w0)) = Inr data"
  shows "i \<le> k \<Longrightarrow>
     fetchJsonWithRetry_from e url auth i le (before_attempt e url auth i w0) =
       (Inr data, snd (attempt e url auth (before_attempt e url auth k w0)))"
proof (induction "k - i" arbitrary: i le)
  case 0
  then have "i = k" by simp
  with k ok show ?case
    using retry_step_ok [of k e url auth "before_attempt e url auth k w0" data
        "snd (attempt e url auth (before_attempt e url auth k w0))" le]
    by (simp add: prod_eq_iff)
next
  case (Suc d)
  then have i: "i < k" by simp
  with failed obtain er w' where
    a: "attempt e url auth (before_attempt e url auth i w0) = (Inl er, w')"
    by (cases "attempt e url auth (before_attempt e url auth i w0)") (auto simp: isl_def)
  then have next_state: "sleep e (backoff e i) w' = before_attempt e url auth (Suc i) w0"
    by (simp add: backoff_Suc)
  from i k have "i < retries e" by simp
  then have "fetchJsonWithRetry_from e url auth i le (before_attempt e url auth i w0) =
      fetchJsonWithRetry_from e url auth (Suc i) (Some er) (before_attempt e url auth (Suc i) w0)"
    using retry_step_fail [OF _ a] next_state by simp
  also have "\<dots> = (Inr data, snd (attempt e url auth (before_attempt e url auth k w0)))"
    using Suc.hyps(1) [of "Suc i" "Some er"] Suc.hyps(2) i by simp
  finally show ?case .
qed

lemma retry_exhausted:
  assumes failed: "\<forall>j<retries e. isl (fst (attempt e url auth (before_attempt e url auth j w0)))"
  shows "i < retries e \<Longrightarrow>
     fetchJsonWithRetry_from e url auth i le (before_attempt e url auth i w0) =
       (Inl (projl (fst (attempt e url auth (before_attempt e url auth (retries e - 1) w0)))),
        before_attempt e url auth (retries e) w0)"
proof (induction "retries e - i" arbitrary: i le)
  case 0
  then show ?case by simp
next
  case (Suc d)
  from Suc.prems failed obtain er w' where
    a: "attempt e url auth (before_attempt e url auth i w0) = (Inl er, w')"
    by (cases "attempt e url auth (before_attempt e url auth i w0)") (auto simp: isl_def)
  then have next_state: "sleep e (backoff e i) w' = before_attempt e url auth (Suc i) w0"
    by (simp add: backoff_Suc)
  have step: "fetchJsonWithRetry_from e url auth i le (before_attempt e url auth i w0) =
      fetchJsonWithRetry_from e url auth (Suc i) (Some er) (before_attempt e url auth (Suc i) w0)"
    using retry_step_fail [OF Suc.prems a] next_state by simp
  show ?case
  proof (cases "Suc i < retries e")
    case True
    then show ?thesis
      using Suc.hyps(1) [of "Suc i" "Some er"] Suc.hyps(2) step by simp
  next
    case False
    with Suc.prems have last: "i = retries e - 1" "Suc i = retries e" by simp_all
    from False have "fetchJsonWithRetry_from e url auth (Suc i) (Some er)
        (before_attempt e url auth (Suc i) w0) = (Inl er, before_attempt e url auth (Suc i) w0)"
      by (rule retry_step_done)
    with step a last show ?thesis by simp
  qed
qed

lemma count_requests_append:
  "count_requests (xs @ ys) = count_requests xs + count_requests ys"
  by (induction xs rule: count_requests.induct) simp_all

lemma trace_sleep: "trace (sleep e ms w) = trace w @ [Sleep ms]"
  by (simp add: sleep_def)

lemma trace_waitRateLimit:
  "\<exists>evs. trace (waitRateLimit e w) = trace w @ evs \<and> count_requests evs = 0"
  by (simp add: waitRateLimit_def Let_def trace_sleep)

lemma trace_attempt:
  "\<exists>evs. trace (snd (attempt e url auth w)) = trace w @ evs \<and> count_requests evs = 1"
proof -
  obtain evs where "trace (waitRateLimit e w) = trace w @ evs" "count_requests evs = 0"
    using trace_waitRateLimit by blast
  then have "trace (snd (attempt e url auth w))
      = trace w @ (evs @ [Request (clock (waitRateLimit e w)) url])
    \<and> count_requests (evs @ [Request (clock (waitRateLimit e w)) url]) = 1"
    by (simp add: attempt_def fetch_def Let_def count_requests_append)
  then show ?thesis by blast
qed

lemma trace_retry_from:
  "\<exists>evs. trace (snd (fetchJsonWithRetry_from e url auth i le w)) = trace w @ evs
     \<and> count_requests evs \<le> retries e - i"
proof (induction e url auth i le w rule: fetchJsonWithRetry_from.induct)
  case (1 e url auth i le w)
  show ?case
  proof (cases "i < retries e")
    case False
    then show ?thesis by (subst fetchJsonWithRetry_from.simps) simp
  next
    case True
    obtain r w' where a: "attempt e url auth w = (r, w')"
      by (cases "attempt e url auth w")
    obtain evs where evs: "trace w' = trace w @ evs" "count_requests evs = 1"
      using trace_attempt [of e url auth w] a by auto
    show ?thesis
    proof (cases r)
      case (Inr data)
      with True a evs show ?thesis
        by (subst fetchJsonWithRetry_from.simps) simp
    next
      case (Inl er)
      with 1 [OF True a [symmetric]] True obtain evs' where
        "trace (snd (fetchJsonWithRetry_from e url auth (i + 1) (Some er) (sleep e (backoff e i) w')))
           = trace (sleep e (backoff e i) w') @ evs'"
        "count_requests evs' \<le> retries e - (i + 1)"
        by auto
      with evs True have "trace (snd (fetchJsonWithRetry_from e url auth (i + 1) (Some er)
             (sleep e (backoff e i) w'))) = trace w @ (evs @ Sleep (backoff e i) # evs')
          \<and> count_requests (evs @ Sleep (backoff e i) # evs') \<le> retries e - i"
        by (simp add: trace_sleep count_requests_append)
      with True a Inl show ?thesis
        by (subst fetchJsonWithRetry_from.simps) auto
    qed
  qed
qed


section \<open>The rate gate\<close>

lemma request_instants_append:
  "request_instants (xs @ ys) = request_instants xs @ request_instants ys"
  by (induction xs rule: request_instants.induct) simp_all

lemma spaced_snoc:
  "spaced d (ts @ [t]) = (spaced d ts \<and> (ts \<noteq> [] \<longrightarrow> d \<le> of_int t - of_int (last ts)))"
  by (induction d ts rule: spaced.induct) auto

lemma whole_of_int [simp]: "whole (of_int k)"
  by (simp add: whole_def)

lemma whole_int: "whole q \<Longrightarrow> \<exists>k. q = of_int k"
  by (metis whole_def)

lemma timer_ms_whole:
  "1 \<le> k \<Longrightarrow> k \<le> TIMEOUT_MAX \<Longrightarrow> timer_ms (Num (of_int k)) = k"
  by (simp add: timer_ms_def)

lemma timer_ms_nonneg: "0 \<le> timer_ms ms"
proof (cases ms)
  case (Num q)
  show ?thesis
  proof (cases "1 \<le> q \<and> q \<le> of_int TIMEOUT_MAX")
    case True
    then have "1 \<le> \<lfloor>q\<rfloor>" by (simp add: le_floor_iff)
    with True Num show ?thesis by (simp add: timer_ms_def)
  next
    case False
    with Num show ?thesis by (auto simp: timer_ms_def)
  qed
qed (simp_all add: timer_ms_def)

lemma clock_sleep: "clock w \<le> clock (sleep e ms w)"
  using timer_ms_nonneg [of ms] by (simp add: sleep_def)

lemma gate_ok_later:
  assumes g: "gate_ok d w"
    and same: "request_instants (trace w') = request_instants (trace w)"
      "nextAllowedAt w' = nextAllowedAt w"
    and later: "clock w \<le> clock w'"
  shows "gate_ok d w'"
proof -
  from g obtain a where a: "nextAllowedAt w = Num a" "whole a"
    "a \<le> of_int (clock w) + max d 0"
    "\<forall>t \<in> set (request_instants (trace w)). of_int t + d \<le> a"
    by (auto simp: gate_ok_def split: number.splits)
  from later have "(of_int (clock w) :: rat) \<le> of_int (clock w')" by simp
  with a(3) have "a \<le> of_int (clock w') + max d 0" by linarith
  moreover from g later have "\<forall>t \<in> set (request_instants (trace w)). t \<le> clock w'"
    by (fastforce simp: gate_ok_def)
  moreover from g have "spaced d (request_instants (trace w))"
    by (simp add: gate_ok_def)
  ultimately show ?thesis
    using a same by (simp add: gate_ok_def)
qed

lemma gate_ok_sleep: "gate_ok d w \<Longrightarrow> gate_ok d (sleep e ms w)"
  using timer_ms_nonneg [of ms]
  by (rule_tac w = w in gate_ok_later) (simp_all add: sleep_def request_instants_append)

text \<open>
  After the gate the clock has reached the instant that was \<^verbatim>\<open>nextAllowedAt\<close>, when that
  was a whole number within the reach of the timer.
\<close>

lemma waitRateLimit_waits:
  assumes a: "nextAllowedAt w = Num a" and wh: "whole a"
    and near: "a \<le> of_int (clock w) + of_int TIMEOUT_MAX"
  shows "a \<le> of_int (clock (waitRateLimit e w)) \<and> clock w \<le> clock (waitRateLimit e w)"
proof (cases "num_lt (Date_now w) (nextAllowedAt w)")
  case False
  with a show ?thesis
    by (simp add: waitRateLimit_def Let_def Date_now_def)
next
  case True
  from wh obtain k where k: "a = of_int k" using whole_int by blast
  with True a have "clock w < k" by (simp add: Date_now_def)
  moreover from near k have "k \<le> clock w + TIMEOUT_MAX"
    by (metis of_int_add of_int_le_iff)
  ultimately have "timer_ms (Num (of_int (k - clock w))) = k - clock w"
    by (intro timer_ms_whole) linarith+
  then have "timer_ms (Num (of_int k - of_int (clock w))) = k - clock w"
    by (simp only: of_int_diff)
  with True a k \<open>clock w < k\<close> show ?thesis
    by (simp add: waitRateLimit_def Let_def Date_now_def sleep_def num_sub_def)
qed

lemma waitRateLimit_sets:
  "nextAllowedAt (waitRateLimit e w) = num_add (Num (of_int (clock (waitRateLimit e w)))) (intervalMs e)"
  by (simp add: waitRateLimit_def Let_def Date_now_def)

lemma waitRateLimit_requests:
  "request_instants (trace (waitRateLimit e w)) = request_instants (trace w)"
  by (simp add: waitRateLimit_def Let_def sleep_def request_instants_append)

lemma attempt_trace:
  "trace (snd (attempt e url auth w))
     = trace (waitRateLimit e w) @ [Request (clock (waitRateLimit e w)) url]"
  by (simp add: attempt_def fetch_def Let_def split: prod.splits)

lemma attempt_clock:
  "clock (waitRateLimit e w) \<le> clock (snd (attempt e url auth w))"
  by (simp add: attempt_def fetch_def Let_def split: prod.splits)

lemma attempt_nextAllowedAt:
  "nextAllowedAt (snd (attempt e url auth w)) = nextAllowedAt (waitRateLimit e w)"
  by (simp add: attempt_def fetch_def Let_def split: prod.splits)

lemma gate_ok_attempt:
  assumes i: "gate_interval e d" and g: "gate_ok d w"
  shows "gate_ok d (snd (attempt e url auth w))"
proof -
  let ?w1 = "waitRateLimit e w"
  let ?ts = "request_instants (trace w)"
  from i have d: "intervalMs e = Num d" "whole d" "d \<le> of_int TIMEOUT_MAX"
    by (simp_all add: gate_interval_def)
  from g obtain a where a: "nextAllowedAt w = Num a" "whole a"
    "a \<le> of_int (clock w) + max d 0" "\<forall>t \<in> set ?ts. of_int t + d \<le> a"
    by (auto simp: gate_ok_def split: number.splits)
  from g have sp: "spaced d ?ts" and past: "\<forall>t \<in> set ?ts. t \<le> clock w"
    by (auto simp: gate_ok_def)
  have "max d 0 \<le> of_int TIMEOUT_MAX"
    using d(3) by (simp add: TIMEOUT_MAX_def)
  with a(3) have near: "a \<le> of_int (clock w) + of_int TIMEOUT_MAX" by linarith
  have waited: "a \<le> of_int (clock ?w1)" "clock w \<le> clock ?w1"
    using waitRateLimit_waits [OF a(1,2) near] by simp_all
  have ts': "request_instants (trace (snd (attempt e url auth w))) = ?ts @ [clock ?w1]"
    by (simp add: attempt_trace request_instants_append waitRateLimit_requests)
  have "spaced d (?ts @ [clock ?w1])"
  proof -
    have "d \<le> of_int (clock ?w1) - of_int (last ?ts)" if "?ts \<noteq> []"
    proof -
      from that have "last ?ts \<in> set ?ts" by simp
      with a(4) have "of_int (last ?ts) + d \<le> a" by blast
      with waited(1) show ?thesis by simp
    qed
    with sp show ?thesis by (simp add: spaced_snoc)
  qed
  moreover have "\<forall>t \<in> set (?ts @ [clock ?w1]). t \<le> clock (snd (attempt e url auth w))"
    using past waited(2) attempt_clock [of e w url auth] by fastforce
  moreover have next_at: "nextAllowedAt (snd (attempt e url auth w)) = Num (of_int (clock ?w1) + d)"
    by (simp add: attempt_nextAllowedAt waitRateLimit_sets d(1))
  moreover have "whole (of_int (clock ?w1) + d)"
  proof -
    from d(2) obtain k where "d = of_int k" using whole_int by blast
    then have "of_int (clock ?w1) + d = of_int (clock ?w1 + k)" by simp
    then show ?thesis by (simp only: whole_of_int)
  qed
  moreover have "of_int (clock ?w1) + d \<le> of_int (clock (snd (attempt e url auth w))) + max d 0"
  proof -
    have "(of_int (clock ?w1) :: rat) \<le> of_int (clock (snd (attempt e url auth w)))"
      using attempt_clock [of e w url auth] by simp
    then show ?thesis by linarith
  qed
  moreover have "\<forall>t \<in> set (?ts @ [clock ?w1]). of_int t + d \<le> of_int (clock ?w1) + d"
    using past waited(2) by fastforce
  ultimately show ?thesis
    by (simp add: gate_ok_def ts')
qed

lemma gate_ok_retry_from:
  "gate_interval e d \<Longrightarrow> gate_ok d w
     \<Longrightarrow> gate_ok d (snd (fetchJsonWithRetry_from e url auth i le w))"
proof (induction e url auth i le w rule: fetchJsonWithRetry_from.induct)
  case (1 e url auth i le w)
  show ?case
  proof (cases "i < retries e")
    case False
    with 1 show ?thesis by (subst fetchJsonWithRetry_from.simps) simp
  next
    case True
    obtain r w' where a: "attempt e url auth w = (r, w')"
      by (cases "attempt e url auth w")
    with 1 have g': "gate_ok d w'"
      using gate_ok_attempt [of e d w url auth] by simp
    show ?thesis
    proof (cases r)
      case (Inr data)
      with True a g' show ?thesis
        by (subst fetchJsonWithRetry_from.simps) simp
    next
      case (Inl er)
      with 1(1) [OF True a [symmetric]] 1(2) g'
      have "gate_ok d (snd (fetchJsonWithRetry_from e url auth (i + 1) (Some er)
          (sleep e (backoff e i) w')))"
        by (simp add: gate_ok_sleep)
      with True a Inl show ?thesis
        by (subst fetchJsonWithRetry_from.simps) simp
    qed
  qed
qed

lemma gate_ok_fetchJsonWithRetry:
  "fetchJsonWithRetry e url auth w = (r, w') \<Longrightarrow> gate_interval e d \<Longrightarrow> gate_ok d w
     \<Longrightarrow> gate_ok d w'"
  using gate_ok_retry_from [of e d w url auth 0 None] by (simp add: fetchJsonWithRetry_def)


lemma gate_ok_report [simp]: "gate_ok d (w\<lparr>report := r\<rparr>) = gate_ok d w"
  by (simp add: gate_ok_def split: number.splits)

lemma gate_ok_files [simp]: "gate_ok d (w\<lparr>files := f\<rparr>) = gate_ok d w"
  by (simp add: gate_ok_def split: number.splits)

lemma gate_ok_set_list_report [simp]: "gate_ok d (set_list_report name entry w) = gate_ok d w"
  by (simp add: set_list_report_def)

lemma gate_ok_push_failed [simp]: "gate_ok d (push_failed topicId er w) = gate_ok d w"
  by (simp add: push_failed_def)

lemma gate_ok_write:
  "writeJsonAtomic e file data w = (r, w') \<Longrightarrow> gate_ok d w \<Longrightarrow> gate_ok d w'"
proof -
  let ?w1 = "w\<lparr>clock := clock w + int (lag e (length (trace w))), trace := trace w @ [Write file]\<rparr>"
  assume run: "writeJsonAtomic e file data w = (r, w')" and g: "gate_ok d w"
  from g have "gate_ok d ?w1"
    by (rule gate_ok_later) (simp_all add: request_instants_append)
  with run show ?thesis
    by (auto simp: writeJsonAtomic_def Let_def split: option.splits)
qed

lemma gate_ok_ensureDirs:
  "ensureDirs e dirs w = (r, w') \<Longrightarrow> gate_ok d w \<Longrightarrow> gate_ok d w'"
proof (induction dirs arbitrary: w)
  case Nil
  then show ?case by simp
next
  case (Cons dir dirs)
  let ?w1 = "w\<lparr>clock := clock w + int (lag e (length (trace w))), trace := trace w @ [Mkdir dir]\<rparr>"
  from Cons.prems(2) have g: "gate_ok d ?w1"
    by (rule gate_ok_later) (simp_all add: request_instants_append)
  show ?case
  proof (cases "fs_failure e (length (trace w)) dir")
    case None
    with Cons.prems(1) have "ensureDirs e dirs ?w1 = (r, w')" by (simp add: Let_def)
    then show ?thesis using g by (rule Cons.IH)
  next
    case (Some er)
    with Cons.prems(1) g show ?thesis by (auto simp: Let_def)
  qed
qed

lemma gate_ok_fetchAndPersistList:
  "fetchAndPersistList e name url filePath w = (v, w') \<Longrightarrow> gate_interval e d \<Longrightarrow> gate_ok d w
     \<Longrightarrow> gate_ok d w'"
  by (auto simp: fetchAndPersistList_def Let_def split: prod.splits sum.splits
      dest: gate_ok_fetchJsonWithRetry gate_ok_write)

lemma gate_ok_updateHotPool:
  "updateHotPool e currentHot w = (r, w') \<Longrightarrow> gate_ok d w \<Longrightarrow> gate_ok d w'"
  by (auto simp: updateHotPool_def Let_def split: prod.splits sum.splits dest: gate_ok_write)

lemma gate_ok_fetchTopic:
  "fetchTopic e topicId w = (r, w') \<Longrightarrow> gate_interval e d \<Longrightarrow> gate_ok d w \<Longrightarrow> gate_ok d w'"
  by (auto simp: fetchTopic_def split: prod.splits sum.splits json.splits list.splits
      dest: gate_ok_fetchJsonWithRetry)

lemma gate_ok_fetchReplies_pages:
  "gate_interval e d \<Longrightarrow> gate_ok d w
     \<Longrightarrow> gate_ok d (snd (fetchReplies_pages e topicId token p all w))"
proof (induction e topicId token p all w rule: fetchReplies_pages.induct)
  case (1 e topicId token p all w)
  show ?case
  proof (cases "p \<le> 50")
    case False
    with 1 show ?thesis by (subst fetchReplies_pages.simps) simp
  next
    case True
    obtain r w1 where f: "fetchJsonWithRetry e (endpoints_v2Replies e topicId p) (Some token) w = (r, w1)"
      by (cases "fetchJsonWithRetry e (endpoints_v2Replies e topicId p) (Some token) w")
    then have g1: "gate_ok d w1" using 1(2,3) by (rule gate_ok_fetchJsonWithRetry)
    show ?thesis
    proof (cases r)
      case (Inl er)
      with True f g1 show ?thesis by (subst fetchReplies_pages.simps) simp
    next
      case (Inr page)
      show ?thesis
      proof (cases "page_items page = [] \<or> length (page_items page) < 50")
        case True
        with \<open>p \<le> 50\<close> f Inr g1 show ?thesis
          by (subst fetchReplies_pages.simps) (auto simp: Let_def)
      next
        case False
        with 1(1) [OF \<open>p \<le> 50\<close> f [symmetric] Inr refl] 1(2) g1
        have "gate_ok d (snd (fetchReplies_pages e topicId token (p + 1) (all @ page_items page) w1))"
          by simp
        with \<open>p \<le> 50\<close> f Inr False show ?thesis
          by (subst fetchReplies_pages.simps) (simp add: Let_def)
      qed
    qed
  qed
qed

lemma gate_ok_fetchReplies_paged:
  "fetchReplies_pages e topicId token p all w = (r, w') \<Longrightarrow> gate_interval e d
     \<Longrightarrow> gate_ok d w \<Longrightarrow> gate_ok d w'"
  using gate_ok_fetchReplies_pages [of e d w topicId token p all] by simp

lemma gate_ok_fetchReplies:
  "fetchReplies e topicId w = (r, w') \<Longrightarrow> gate_interval e d \<Longrightarrow> gate_ok d w \<Longrightarrow> gate_ok d w'"
  by (auto simp: fetchReplies_def split: prod.splits sum.splits option.splits if_splits
      dest: gate_ok_fetchJsonWithRetry gate_ok_fetchReplies_paged)

lemma gate_ok_refresh_topic:
  "refresh_topic e topicId existingTopicDoc listSnapshot should w = (r, w')
     \<Longrightarrow> gate_interval e d \<Longrightarrow> gate_ok d w \<Longrightarrow> gate_ok d w'"
  by (auto simp: refresh_topic_def split: prod.splits sum.splits if_splits
      dest: gate_ok_fetchTopic gate_ok_write)

lemma gate_ok_refresh_replies:
  "refresh_replies e topicId topic w = (r, w') \<Longrightarrow> gate_interval e d \<Longrightarrow> gate_ok d w
     \<Longrightarrow> gate_ok d w'"
  by (auto simp: refresh_replies_def split: prod.splits sum.splits
      dest: gate_ok_fetchReplies gate_ok_write)

lemma gate_ok_try_topic:
  "try_topic e topicId existingTopicDoc existingRepliesDoc listSnapshot should w = (r, w')
     \<Longrightarrow> gate_interval e d \<Longrightarrow> gate_ok d w \<Longrightarrow> gate_ok d w'"
  by (auto simp: try_topic_def split: prod.splits sum.splits if_splits
      dest: gate_ok_refresh_topic gate_ok_refresh_replies)

lemma gate_ok_process_topic:
  "process_topic e latest hot now ttlMs topicId w = (r, w') \<Longrightarrow> gate_interval e d
     \<Longrightarrow> gate_ok d w \<Longrightarrow> gate_ok d w'"
  by (auto simp: process_topic_def Let_def split: prod.splits sum.splits
      dest: gate_ok_try_topic)

lemma gate_ok_for_candidates:
  "for_candidates e latest hot now ttlMs ids w = (r, w') \<Longrightarrow> gate_interval e d
     \<Longrightarrow> gate_ok d w \<Longrightarrow> gate_ok d w'"
proof (induction ids arbitrary: w)
  case Nil
  then show ?case by simp
next
  case (Cons topicId rest)
  obtain r1 w1 where p: "process_topic e latest hot now ttlMs topicId w = (r1, w1)"
    by (cases "process_topic e latest hot now ttlMs topicId w")
  with Cons.prems have g1: "gate_ok d w1" using gate_ok_process_topic by blast
  show ?case
  proof (cases r1)
    case (Inl er)
    with Cons.prems(1) p g1 show ?thesis by simp
  next
    case (Inr u)
    with Cons.prems(1) p have "for_candidates e latest hot now ttlMs rest w1 = (r, w')" by simp
    then show ?thesis using Cons.prems(2) g1 by (rule Cons.IH)
  qed
qed

lemma gate_ok_persist_state:
  "persist_state e previousState ids w = (r, w') \<Longrightarrow> gate_ok d w \<Longrightarrow> gate_ok d w'"
proof -
  assume g: "gate_ok d w" and run: "persist_state e previousState ids w = (r, w')"
  show ?thesis
  proof (cases "nullish previousState")
    case True
    with g run show ?thesis by (simp add: persist_state_def)
  next
    case False
    let ?w1 = "w\<lparr>report := (report w)\<lparr>finished_at := Some (toISOString e (clock w))\<rparr>\<rparr>"
    obtain r2 w2 where w2: "writeJsonAtomic e STATE_FILE (nextState e previousState ids w) ?w1 = (r2, w2)"
      by (cases "writeJsonAtomic e STATE_FILE (nextState e previousState ids w) ?w1")
    from g have "gate_ok d ?w1" by simp
    with w2 have g2: "gate_ok d w2" by (rule gate_ok_write)
    show ?thesis
    proof (cases r2)
      case (Inl er)
      with False run w2 g2 show ?thesis by (simp add: persist_state_def Let_def)
    next
      case (Inr u)
      with False run w2 have "writeJsonAtomic e LAST_RUN_FILE (report_json e (report w2)) w2 = (r, w')"
        by (simp add: persist_state_def Let_def)
      then show ?thesis using g2 by (rule gate_ok_write)
    qed
  qed
qed

lemma gate_ok_sync_topics:
  "sync_topics e previousState latest hot hotPool w = (r, w') \<Longrightarrow> gate_interval e d
     \<Longrightarrow> gate_ok d w \<Longrightarrow> gate_ok d w'"
  by (auto simp: sync_topics_def Let_def split: prod.splits sum.splits
      dest: gate_ok_for_candidates gate_ok_persist_state)

lemma gate_ok_main:
  assumes run: "main e w = (r, w')" and i: "gate_interval e d" and g: "gate_ok d w"
  shows "gate_ok d w'"
proof -
  obtain r1 w1 where dirs:
    "ensureDirs e [INDEX_DIR, NODES_DIR, TOPICS_DIR, REPLIES_DIR, META_DIR] w = (r1, w1)"
    by (cases "ensureDirs e [INDEX_DIR, NODES_DIR, TOPICS_DIR, REPLIES_DIR, META_DIR] w")
  then have g1: "gate_ok d w1" using g by (rule gate_ok_ensureDirs)
  show ?thesis
  proof (cases r1)
    case (Inl er)
    with run dirs g1 show ?thesis by (simp add: main_def del: ensureDirs.simps)
  next
    case (Inr u)
    let ?w2 = "w1\<lparr>report := \<lparr>started_at = toISOString e (clock w), finished_at = None,
                 lists = [], candidates = 0, refreshed = 0, skipped = 0, failed = []\<rparr>\<rparr>"
    obtain latest w3 where l: "fetchAndPersistList e ''latest'' endpoints_latest LATEST_FILE ?w2 = (latest, w3)"
      by (cases "fetchAndPersistList e ''latest'' endpoints_latest LATEST_FILE ?w2")
    obtain hot w4 where h: "fetchAndPersistList e ''hot'' endpoints_hot HOT_FILE w3 = (hot, w4)"
      by (cases "fetchAndPersistList e ''hot'' endpoints_hot HOT_FILE w3")
    obtain r5 w5 where u: "updateHotPool e hot w4 = (r5, w5)"
      by (cases "updateHotPool e hot w4")
    from g1 have "gate_ok d ?w2" by simp
    with l i have "gate_ok d w3" by (rule gate_ok_fetchAndPersistList)
    with h i have "gate_ok d w4" by (rule gate_ok_fetchAndPersistList)
    with u have g5: "gate_ok d w5" by (rule gate_ok_updateHotPool)
    show ?thesis
    proof (cases r5)
      case (Inl er)
      with run dirs Inr l h u g5 show ?thesis
        by (simp add: main_def Let_def del: ensureDirs.simps)
    next
      case hp: (Inr hotPool)
      let ?w6 = "set_list_report ''hot_pool''
          \<lparr>status = ''updated'', count = length hotPool, source = HOT_POOL_FILE, err = None\<rparr> w5"
      obtain nodes w7 where n: "fetchAndPersistList e ''nodes'' endpoints_nodes NODES_FILE ?w6 = (nodes, w7)"
        by (cases "fetchAndPersistList e ''nodes'' endpoints_nodes NODES_FILE ?w6")
      from g5 have "gate_ok d ?w6" by simp
      with n i have g7: "gate_ok d w7" by (rule gate_ok_fetchAndPersistList)
      from run dirs Inr l h u hp n
      have "sync_topics e (readJson w1 STATE_FILE (JObj [])) latest hot hotPool w7 = (r, w')"
        by (simp add: main_def Let_def del: ensureDirs.simps)
      then show ?thesis using i g7 by (rule gate_ok_sync_topics)
    qed
  qed
qed


section \<open>The client, as specified\<close>

lemma env1_simps:
  "intervalMs env1 = Num 350" "retries env1 = 3" "lag env1 k = 0"
  "net env1 k url auth = (if k < 4 then Rejected (Error ''down'') else Response 200 (Inr (JArr [topic1])))"
  "fs_failure env1 k path = None" "V2EX_TOKEN env1 = None"
  "num_text env1 n = (if n = Num 1 then ''1'' else if n = Num 2 then ''2'' else ''n'')"
  "toISOString env1 i = ''1970-01-01T00:00:01.000Z''"
  by (simp_all add: env1_def env0_def)

lemma response_result_ok:
  "(response_result e url response = Inr data)
     = (\<exists>st. response = Response st (Inr data) \<and> 200 \<le> st \<and> st \<le> 299)"
  by (cases response) (auto simp: response_result_def response_ok_def)

lemma attempt_result:
  "fst (attempt e url auth w)
     = response_result e url (net e (length (trace (waitRateLimit e w))) url auth)"
  by (simp add: attempt_def fetch_def Let_def split: prod.splits)

lemma waitRateLimit_trace:
  "trace (waitRateLimit e w) =
     (if num_lt (Date_now w) (nextAllowedAt w)
      then trace w @ [Sleep (num_sub (nextAllowedAt w) (Date_now w))] else trace w)"
  by (simp add: waitRateLimit_def Let_def sleep_def)

text \<open>
  C6. A call of \<open>fetchJsonWithRetry\<close> issues at most \<open>retries\<close> requests. An attempt fails
  when the request is rejected, the status is not 2xx or the body does not parse; after
  failed attempt \<open>n\<close> the client sleeps \<open>intervalMs * n * 2\<close>. If the attempts before attempt
  \<open>k + 1 \<le> retries\<close> fail and that one succeeds, the call returns its parsed body; if all
  \<open>retries\<close> attempts fail, it throws the error of the last one.
\<close>

theorem fetchJsonWithRetry_schedule:
  "(\<exists>evs. trace (snd (fetchJsonWithRetry e url auth w)) = trace w @ evs
          \<and> count_requests evs \<le> retries e)
   \<and> (\<forall>k data.
         k < retries e
         \<and> (\<forall>j<k. isl (fst (attempt e url auth (before_attempt e url auth j w))))
         \<and> fst (attempt e url auth (before_attempt e url auth k w)) = Inr data
         \<longrightarrow> fetchJsonWithRetry e url auth w
               = (Inr data, snd (attempt e url auth (before_attempt e url auth k w))))
   \<and> (0 < retries e
        \<and> (\<forall>j<retries e. isl (fst (attempt e url auth (before_attempt e url auth j w))))
        \<longrightarrow> fetchJsonWithRetry e url auth w
              = (Inl (projl (fst (attempt e url auth (before_attempt e url auth (retries e - 1) w)))),
                 before_attempt e url auth (retries e) w))
   \<and> (\<forall>n. trace (before_attempt e url auth (Suc n) w)
            = trace (snd (attempt e url auth (before_attempt e url auth n w)))
              @ [Sleep (num_mul (num_mul (intervalMs e) (Num (of_nat (Suc n)))) (Num 2))])
   \<and> (\<forall>w1. fst (attempt e url auth w1)
             = response_result e url (net e (length (trace (waitRateLimit e w1))) url auth))
   \<and> (\<forall>response data.
         (response_result e url response = Inr data)
           = (\<exists>st. response = Response st (Inr data) \<and> 200 \<le> st \<and> st \<le> 299))"
proof (intro conjI allI impI)
  show "\<exists>evs. trace (snd (fetchJsonWithRetry e url auth w)) = trace w @ evs
          \<and> count_requests evs \<le> retries e"
    using trace_retry_from [of e url auth 0 None w] by (simp add: fetchJsonWithRetry_def)
next
  fix k data
  assume "k < retries e
         \<and> (\<forall>j<k. isl (fst (attempt e url auth (before_attempt e url auth j w))))
         \<and> fst (attempt e url auth (before_attempt e url auth k w)) = Inr data"
  then show "fetchJsonWithRetry e url auth w
               = (Inr data, snd (attempt e url auth (before_attempt e url auth k w)))"
    using retry_succeeds_at [of k e url auth w data 0 None] by (simp add: fetchJsonWithRetry_def)
next
  assume "0 < retries e
        \<and> (\<forall>j<retries e. isl (fst (attempt e url auth (before_attempt e url auth j w))))"
  then show "fetchJsonWithRetry e url auth w
              = (Inl (projl (fst (attempt e url auth (before_attempt e url auth (retries e - 1) w)))),
                 before_attempt e url auth (retries e) w)"
    using retry_exhausted [of e url auth w 0 None] by (simp add: fetchJsonWithRetry_def)
next
  fix n
  show "trace (before_attempt e url auth (Suc n) w)
            = trace (snd (attempt e url auth (before_attempt e url auth n w)))
              @ [Sleep (num_mul (num_mul (intervalMs e) (Num (of_nat (Suc n)))) (Num 2))]"
    by (simp add: trace_sleep)
next
  fix w1
  show "fst (attempt e url auth w1)
             = response_result e url (net e (length (trace (waitRateLimit e w1))) url auth)"
    by (rule attempt_result)
next
  fix response data
  show "(response_result e url response = Inr data)
           = (\<exists>st. response = Response st (Inr data) \<and> 200 \<le> st \<and> st \<le> 299)"
    by (rule response_result_ok)
qed

text \<open>Runs of the client from \<open>state0\<close>.\<close>

lemmas client_defs =
  attempt_def waitRateLimit_def fetch_def response_result_def response_ok_def Date_now_def
  sleep_def timer_ms_def TIMEOUT_MAX_def num_sub_def backoff_def Let_def

lemma env1_attempts:
  "fst (attempt env1 url None (before_attempt env1 url None 0 state0)) = Inl (Error ''down'')"
  "fst (attempt env1 url None (before_attempt env1 url None (Suc 0) state0)) = Inl (Error ''down'')"
  "fst (attempt env1 url None (before_attempt env1 url None (Suc (Suc 0)) state0))
     = Inr (JArr [topic1])"
  "trace (snd (attempt env1 url None (before_attempt env1 url None (Suc (Suc 0)) state0)))
     = [Request 3456000000 url, Sleep (Num 700), Request 3456000700 url, Sleep (Num 1400),
        Request 3456002100 url]"
  by (simp_all add: client_defs state0_def env1_simps)

lemma env0_attempts:
  "fst (attempt env0 url None (before_attempt env0 url None 0 state0)) = Inl (Error ''down'')"
  "fst (attempt env0 url None (before_attempt env0 url None (Suc 0) state0)) = Inl (Error ''down'')"
  "fst (attempt env0 url None (before_attempt env0 url None (Suc (Suc 0)) state0))
     = Inl (Error ''down'')"
  "trace (before_attempt env0 url None (Suc (Suc (Suc 0))) state0)
     = [Request 3456000000 url, Sleep (Num 700), Request 3456000700 url, Sleep (Num 1400),
        Request 3456002100 url, Sleep (Num 2100)]"
  by (simp_all add: client_defs state0_def env0_simps)

theorem fetchJsonWithRetry_schedule_witness:
  "fst (fetchJsonWithRetry env1 endpoints_latest None state0) = Inr (JArr [topic1])
   \<and> trace (snd (fetchJsonWithRetry env1 endpoints_latest None state0))
       = [Request 3456000000 endpoints_latest, Sleep (Num 700),
          Request 3456000700 endpoints_latest, Sleep (Num 1400),
          Request 3456002100 endpoints_latest]
   \<and> fst (fetchJsonWithRetry env0 endpoints_latest None state0) = Inl (Error ''down'')
   \<and> trace (snd (fetchJsonWithRetry env0 endpoints_latest None state0))
       = [Request 3456000000 endpoints_latest, Sleep (Num 700),
          Request 3456000700 endpoints_latest, Sleep (Num 1400),
          Request 3456002100 endpoints_latest, Sleep (Num 2100)]"
proof -
  have "\<forall>j<2. isl (fst (attempt env1 endpoints_latest None
      (before_attempt env1 endpoints_latest None j state0)))"
  proof (intro allI impI)
    fix j :: nat
    assume "j < 2"
    then have "j = 0 \<or> j = Suc 0" by auto
    then show "isl (fst (attempt env1 endpoints_latest None
        (before_attempt env1 endpoints_latest None j state0)))"
      using env1_attempts(1,2) by auto
  qed
  moreover have "(2::nat) < retries env1" by (simp add: env1_simps)
  moreover have "fst (attempt env1 endpoints_latest None
      (before_attempt env1 endpoints_latest None 2 state0)) = Inr (JArr [topic1])"
    using env1_attempts(3) by (simp only: numeral_2_eq_2)
  ultimately have answered: "fetchJsonWithRetry env1 endpoints_latest None state0
      = (Inr (JArr [topic1]),
         snd (attempt env1 endpoints_latest None (before_attempt env1 endpoints_latest None 2 state0)))"
    using fetchJsonWithRetry_schedule [of env1 endpoints_latest None state0] by blast
  have "\<forall>j<retries env0. isl (fst (attempt env0 endpoints_latest None
      (before_attempt env0 endpoints_latest None j state0)))"
  proof (intro allI impI)
    fix j :: nat
    assume "j < retries env0"
    then have "j = 0 \<or> j = Suc 0 \<or> j = Suc (Suc 0)" by (auto simp: env0_simps)
    then show "isl (fst (attempt env0 endpoints_latest None
        (before_attempt env0 endpoints_latest None j state0)))"
      using env0_attempts(1,2,3) by auto
  qed
  moreover have "0 < retries env0" by (simp add: env0_simps)
  ultimately have "fetchJsonWithRetry env0 endpoints_latest None state0
      = (Inl (projl (fst (attempt env0 endpoints_latest None
                (before_attempt env0 endpoints_latest None (retries env0 - 1) state0)))),
         before_attempt env0 endpoints_latest None (retries env0) state0)"
    using fetchJsonWithRetry_schedule [of env0 endpoints_latest None state0] by blast
  moreover have "retries env0 - 1 = Suc (Suc 0)" "retries env0 = Suc (Suc (Suc 0))"
    by (simp_all add: env0_simps)
  ultimately have down: "fetchJsonWithRetry env0 endpoints_latest None state0
      = (Inl (Error ''down''),
         before_attempt env0 endpoints_latest None (Suc (Suc (Suc 0))) state0)"
    using env0_attempts(3) by simp
  show ?thesis
    using answered down env1_attempts(4) env0_attempts(4) by (simp add: numeral_2_eq_2)
qed

lemma env0_client_down:
  "fetchJsonWithRetry env0 url None state0
     = (Inl (Error ''down''), before_attempt env0 url None (Suc (Suc (Suc 0))) state0)"
proof -
  have "\<forall>j<retries env0. isl (fst (attempt env0 url None (before_attempt env0 url None j state0)))"
  proof (intro allI impI)
    fix j :: nat
    assume "j < retries env0"
    then have "j = 0 \<or> j = Suc 0 \<or> j = Suc (Suc 0)" by (auto simp: env0_simps)
    then show "isl (fst (attempt env0 url None (before_attempt env0 url None j state0)))"
      using env0_attempts(1,2,3) [of url] by auto
  qed
  moreover have "0 < retries env0" "retries env0 - 1 = Suc (Suc 0)"
    "retries env0 = Suc (Suc (Suc 0))"
    by (simp_all add: env0_simps)
  ultimately show ?thesis
    using retry_exhausted [of env0 url None state0 0 None] env0_attempts(3) [of url]
    by (simp add: fetchJsonWithRetry_def)
qed

lemma env1_client_answers:
  "fetchJsonWithRetry env1 url None state0
     = (Inr (JArr [topic1]), snd (attempt env1 url None (before_attempt env1 url None (Suc (Suc 0)) state0)))"
proof -
  have "\<forall>j<Suc (Suc 0). isl (fst (attempt env1 url None (before_attempt env1 url None j state0)))"
  proof (intro allI impI)
    fix j :: nat
    assume "j < Suc (Suc 0)"
    then have "j = 0 \<or> j = Suc 0" by auto
    then show "isl (fst (attempt env1 url None (before_attempt env1 url None j state0)))"
      using env1_attempts(1,2) [of url] by auto
  qed
  moreover have "Suc (Suc 0) < retries env1" by (simp add: env1_simps)
  ultimately show ?thesis
    using retry_succeeds_at [of "Suc (Suc 0)" env1 url None state0 "JArr [topic1]" 0 None]
      env1_attempts(3) [of url]
    by (simp add: fetchJsonWithRetry_def)
qed

lemma env2_simps:
  "intervalMs env2 = Num 350" "retries env2 = 3" "lag env2 k = 0"
  "net env2 k url auth = Response 200 (Inr (JArr [topic1]))"
  "intervalMs env3 = Num 3000000000" "retries env3 = 3" "lag env3 k = 0"
  "net env3 k url auth = Response 200 (Inr (JArr [topic1]))"
  by (simp_all add: env3_def env2_def env0_def)

lemma answered_at_once:
  "0 < retries e \<Longrightarrow> fst (attempt e url auth w) = Inr data
     \<Longrightarrow> fetchJsonWithRetry e url auth w = (Inr data, snd (attempt e url auth w))"
  using retry_step_ok [of 0 e url auth w data "snd (attempt e url auth w)" None]
  by (simp add: fetchJsonWithRetry_def prod_eq_iff)

text \<open>Two calls of the client in a row, the network answering at once.\<close>

lemma env2_two_calls:
  "trace (snd (fetchJsonWithRetry env2 endpoints_hot None
                 (snd (fetchJsonWithRetry env2 endpoints_latest None state0))))
     = [Request 3456000000 endpoints_latest, Sleep (Num 350), Request 3456000350 endpoints_hot]"
proof -
  have first: "fetchJsonWithRetry env2 endpoints_latest None state0
      = (Inr (JArr [topic1]), snd (attempt env2 endpoints_latest None state0))"
    by (rule answered_at_once) (simp_all add: client_defs env2_simps state0_def)
  have "fetchJsonWithRetry env2 endpoints_hot None (snd (attempt env2 endpoints_latest None state0))
      = (Inr (JArr [topic1]),
         snd (attempt env2 endpoints_hot None (snd (attempt env2 endpoints_latest None state0))))"
    by (rule answered_at_once) (simp_all add: client_defs env2_simps state0_def)
  with first show ?thesis
    by (simp add: client_defs env2_simps state0_def)
qed

lemma env3_two_calls:
  "trace (snd (fetchJsonWithRetry env3 endpoints_hot None
                 (snd (fetchJsonWithRetry env3 endpoints_latest None state0))))
     = [Request 3456000000 endpoints_latest, Sleep (Num 3000000000),
        Request 3456000001 endpoints_hot]"
proof -
  have first: "fetchJsonWithRetry env3 endpoints_latest None state0
      = (Inr (JArr [topic1]), snd (attempt env3 endpoints_latest None state0))"
    by (rule answered_at_once) (simp_all add: client_defs env2_simps state0_def)
  have "fetchJsonWithRetry env3 endpoints_hot None (snd (attempt env3 endpoints_latest None state0))
      = (Inr (JArr [topic1]),
         snd (attempt env3 endpoints_hot None (snd (attempt env3 endpoints_latest None state0))))"
    by (rule answered_at_once) (simp_all add: client_defs env2_simps state0_def)
  with first show ?thesis
    by (simp add: client_defs env2_simps state0_def)
qed

text \<open>
  C7, as the specification states it: consecutive requests are never less than
  \<open>intervalMs\<close> apart. They are for the default interval, not for every interval: with
  \<open>intervalMs = 3000000000\<close> the gate asks the timer for a delay above \<open>2^31 - 1\<close>, the
  timer fires after one millisecond, and the second of two requests is issued one
  millisecond after the first.
\<close>

theorem rate_gate_not_spaced:
  "request_instants (trace (snd (fetchJsonWithRetry env3 endpoints_hot None
                                   (snd (fetchJsonWithRetry env3 endpoints_latest None state0)))))
     = [3456000000, 3456000001]
   \<and> intervalMs env3 = Num 3000000000
   \<and> \<not> spaced 3000000000 [3456000000, 3456000001]"
  by (simp add: env3_two_calls env2_simps)

text \<open>
  C7, as the code has it. Every attempt goes through \<open>waitRateLimit\<close> and issues its request
  at the instant the gate lets it through; the gate sleeps for \<open>nextAllowedAt - now\<close> when
  that is positive and not at all otherwise, and sets \<open>nextAllowedAt\<close> to the current instant
  plus \<open>intervalMs\<close>. When \<open>nextAllowedAt\<close> is a whole number at most \<open>2^31 - 1\<close> ahead of the
  clock, the gate has reached it when it returns. So for an interval that is a whole number
  of milliseconds not above \<open>2^31 - 1\<close> the client keeps the requests spaced, and in a whole
  run that starts with \<open>nextAllowedAt = 0\<close> any two consecutive requests are at least
  \<open>intervalMs\<close> apart.
\<close>

theorem rate_gate_spacing:
  "trace (snd (attempt e url auth w))
     = trace (waitRateLimit e w) @ [Request (clock (waitRateLimit e w)) url]
   \<and> trace (waitRateLimit e w)
       = (if num_lt (Date_now w) (nextAllowedAt w)
          then trace w @ [Sleep (num_sub (nextAllowedAt w) (Date_now w))] else trace w)
   \<and> nextAllowedAt (waitRateLimit e w) = num_add (Date_now (waitRateLimit e w)) (intervalMs e)
   \<and> (nextAllowedAt w = Num a \<and> whole a \<and> a \<le> of_int (clock w) + of_int TIMEOUT_MAX
        \<longrightarrow> a \<le> of_int (clock (waitRateLimit e w)) \<and> clock w \<le> clock (waitRateLimit e w))
   \<and> (intervalMs e = Num d \<and> whole d \<and> d \<le> of_int TIMEOUT_MAX \<and> gate_ok d w
        \<longrightarrow> gate_ok d (snd (fetchJsonWithRetry e url auth w)))
   \<and> (intervalMs e = Num d \<and> whole d \<and> d \<le> of_int TIMEOUT_MAX
        \<and> nextAllowedAt w = Num 0 \<and> trace w = [] \<and> 0 \<le> clock w
        \<longrightarrow> spaced d (request_instants (trace (snd (main e w)))))"
proof (intro conjI impI)
  show "trace (snd (attempt e url auth w))
     = trace (waitRateLimit e w) @ [Request (clock (waitRateLimit e w)) url]"
    by (rule attempt_trace)
  show "trace (waitRateLimit e w)
       = (if num_lt (Date_now w) (nextAllowedAt w)
          then trace w @ [Sleep (num_sub (nextAllowedAt w) (Date_now w))] else trace w)"
    by (rule waitRateLimit_trace)
  show "nextAllowedAt (waitRateLimit e w) = num_add (Date_now (waitRateLimit e w)) (intervalMs e)"
    by (simp add: waitRateLimit_sets Date_now_def)
next
  assume "nextAllowedAt w = Num a \<and> whole a \<and> a \<le> of_int (clock w) + of_int TIMEOUT_MAX"
  then show "a \<le> of_int (clock (waitRateLimit e w))" "clock w \<le> clock (waitRateLimit e w)"
    using waitRateLimit_waits [of w a e] by simp_all
next
  assume "intervalMs e = Num d \<and> whole d \<and> d \<le> of_int TIMEOUT_MAX \<and> gate_ok d w"
  then show "gate_ok d (snd (fetchJsonWithRetry e url auth w))"
    using gate_ok_fetchJsonWithRetry [of e url auth w _ _ d]
    by (cases "fetchJsonWithRetry e url auth w") (simp add: gate_interval_def)
next
  assume h: "intervalMs e = Num d \<and> whole d \<and> d \<le> of_int TIMEOUT_MAX
        \<and> nextAllowedAt w = Num 0 \<and> trace w = [] \<and> 0 \<le> clock w"
  then have "(0::rat) \<le> of_int (clock w) + max d 0" by simp
  with h have "gate_ok d w" by (simp add: gate_ok_def whole_def)
  with h have "gate_ok d (snd (main e w))"
    using gate_ok_main [of e w _ _ d] by (cases "main e w") (simp add: gate_interval_def)
  then show "spaced d (request_instants (trace (snd (main e w))))"
    by (simp add: gate_ok_def)
qed

theorem rate_gate_spacing_witness:
  "spaced 350 (request_instants (trace (snd (main env2 state0))))
   \<and> gate_ok 350 (snd (fetchJsonWithRetry env2 endpoints_hot None
                          (snd (fetchJsonWithRetry env2 endpoints_latest None state0))))
   \<and> trace (snd (fetchJsonWithRetry env2 endpoints_hot None
                    (snd (fetchJsonWithRetry env2 endpoints_latest None state0))))
       = [Request 3456000000 endpoints_latest, Sleep (Num 350), Request 3456000350 endpoints_hot]
   \<and> spaced 350 [3456000000, 3456000350]"
proof -
  let ?w1 = "snd (fetchJsonWithRetry env2 endpoints_latest None state0)"
  have interval: "intervalMs env2 = Num 350" "whole 350" "(350::rat) \<le> of_int TIMEOUT_MAX"
    by (simp_all add: env2_simps whole_def TIMEOUT_MAX_def)
  have start: "nextAllowedAt state0 = Num 0" "trace state0 = []" "0 \<le> clock state0"
    by (simp_all add: state0_def)
  then have g0: "gate_ok 350 state0" by (simp add: gate_ok_def whole_def)
  from interval g0 have g1: "gate_ok 350 ?w1"
    using rate_gate_spacing [of env2 endpoints_latest None state0 0 350] by simp
  from interval g1 have "gate_ok 350 (snd (fetchJsonWithRetry env2 endpoints_hot None ?w1))"
    using rate_gate_spacing [of env2 endpoints_hot None ?w1 0 350] by simp
  moreover from interval start have "spaced 350 (request_instants (trace (snd (main env2 state0))))"
    using rate_gate_spacing [of env2 endpoints_latest None state0 0 350] by simp
  ultimately show ?thesis
    by (simp add: env2_two_calls)
qed

section \<open>Refreshing one topic\<close>

lemma report_sleep [simp]: "report (sleep e ms w) = report w"
  by (simp add: sleep_def)

lemma files_sleep [simp]: "files (sleep e ms w) = files w"
  by (simp add: sleep_def)

lemma report_attempt [simp]: "report (snd (attempt e url auth w)) = report w"
  by (simp add: attempt_def waitRateLimit_def fetch_def Let_def split: prod.splits)

lemma files_attempt [simp]: "files (snd (attempt e url auth w)) = files w"
  by (simp add: attempt_def waitRateLimit_def fetch_def Let_def split: prod.splits)

lemma frame_retry_from:
  "report (snd (fetchJsonWithRetry_from e url auth i le w)) = report w
   \<and> files (snd (fetchJsonWithRetry_from e url auth i le w)) = files w"
proof (induction e url auth i le w rule: fetchJsonWithRetry_from.induct)
  case (1 e url auth i le w)
  show ?case
  proof (cases "i < retries e")
    case False
    then show ?thesis by (subst (1 2) fetchJsonWithRetry_from.simps) simp
  next
    case True
    obtain r w' where a: "attempt e url auth w = (r, w')"
      by (cases "attempt e url auth w")
    then have same: "report w' = report w" "files w' = files w"
      using report_attempt [of e url auth w] files_attempt [of e url auth w] by simp_all
    show ?thesis
    proof (cases r)
      case (Inr data)
      with True a same show ?thesis
        by (subst (1 2) fetchJsonWithRetry_from.simps) simp
    next
      case (Inl er)
      with 1 [OF True a [symmetric]] same True a show ?thesis
        by (subst (1 2) fetchJsonWithRetry_from.simps) simp
    qed
  qed
qed

lemma frame_fetchJsonWithRetry:
  "fetchJsonWithRetry e url auth w = (r, w') \<Longrightarrow> report w' = report w \<and> files w' = files w"
  using frame_retry_from [of e url auth 0 None w] by (simp add: fetchJsonWithRetry_def)

lemma frame_fetchTopic:
  "fetchTopic e topicId w = (r, w') \<Longrightarrow> report w' = report w \<and> files w' = files w"
  by (auto simp: fetchTopic_def split: prod.splits sum.splits json.splits list.splits
      dest: frame_fetchJsonWithRetry)

lemma report_write:
  "writeJsonAtomic e file data w = (r, w') \<Longrightarrow> report w' = report w"
  by (auto simp: writeJsonAtomic_def Let_def split: option.splits)

lemma refresh_topic_truthy:
  "refresh_topic e topicId existingTopicDoc listSnapshot True w = (Inr topic, w1) \<Longrightarrow> truthy topic"
  by (auto simp: refresh_topic_def split: prod.splits sum.splits if_splits)

lemma refresh_topic_counts:
  "refresh_topic e topicId existingTopicDoc listSnapshot should w = (Inr topic, w1) \<Longrightarrow>
     refreshed (report w1) = (if should then Suc (refreshed (report w)) else refreshed (report w))
     \<and> skipped (report w1) = (if should then skipped (report w) else Suc (skipped (report w)))"
  by (auto simp: refresh_topic_def split: prod.splits sum.splits if_splits
      dest!: frame_fetchTopic report_write)

lemma decide_skip_topic:
  "decideRefreshTopic e doc listSnapshot now ttlMs = Inr False \<Longrightarrow> truthy (js_get doc ''topic'')"
  by (auto simp: decideRefreshTopic_def Let_def split: if_splits)

lemma truthy_coalesce: "truthy v \<Longrightarrow> coalesce v JNull = v"
  by (cases v) (simp_all add: coalesce_def)

lemma repliesDoc_meta:
  "js_get (js_get (repliesDoc e topicId topic replies w) ''meta'') ''fetched_count''
     = JNum (Num (of_nat (length replies)))"
  "js_get (js_get (repliesDoc e topicId topic replies w) ''meta'') ''total_count''
     = JNum (Number_of e (coalesce (js_get topic ''replies'') (JNum (Num (of_nat (length replies))))))"
  "js_get (js_get (repliesDoc e topicId topic replies w) ''meta'') ''partial''
     = JBool (num_lt (Num (of_nat (length replies)))
               (Number_of e (coalesce (js_get topic ''replies'') (JNum (Num (of_nat (length replies)))))))"
  by (simp_all add: repliesDoc_def Let_def)

lemma refresh_replies_writes:
  "refresh_replies e topicId topic w = (Inr u, w') \<Longrightarrow>
     \<exists>replies w1. files w' (repliesFile e topicId) = Some (repliesDoc e topicId topic replies w1)"
  by (fastforce simp: refresh_replies_def writeJsonAtomic_def Let_def
      split: prod.splits sum.splits option.splits)

text \<open>
  C10. In the replies document \<open>meta.partial\<close> is \<open>meta.fetched_count < meta.total_count\<close>,
  and the document that a successful \<open>refresh_replies\<close> leaves in the replies file is such a
  document; with nothing fetched of 0 it is false, with 5 fetched of 10 it is true.
\<close>

theorem repliesDoc_partial:
  "(\<exists>f t. js_get (js_get (repliesDoc e topicId topic replies w) ''meta'') ''fetched_count'' = JNum f
         \<and> js_get (js_get (repliesDoc e topicId topic replies w) ''meta'') ''total_count'' = JNum t
         \<and> js_get (js_get (repliesDoc e topicId topic replies w) ''meta'') ''partial''
             = JBool (num_lt f t))
   \<and> (\<forall>w0 w'. refresh_replies e topicId topic w0 = (Inr (), w') \<longrightarrow>
         (\<exists>fetched w1. files w' (repliesFile e topicId)
                          = Some (repliesDoc e topicId topic fetched w1)))
   \<and> (replies = [] \<and> js_get topic ''replies'' = JNum (Num 0)
        \<longrightarrow> js_get (js_get (repliesDoc e topicId topic replies w) ''meta'') ''partial'' = JBool False)
   \<and> (length replies = 5 \<and> js_get topic ''replies'' = JNum (Num 10)
        \<longrightarrow> js_get (js_get (repliesDoc e topicId topic replies w) ''meta'') ''partial'' = JBool True)"
proof (intro conjI allI impI)
  show "\<exists>f t. js_get (js_get (repliesDoc e topicId topic replies w) ''meta'') ''fetched_count'' = JNum f
         \<and> js_get (js_get (repliesDoc e topicId topic replies w) ''meta'') ''total_count'' = JNum t
         \<and> js_get (js_get (repliesDoc e topicId topic replies w) ''meta'') ''partial''
             = JBool (num_lt f t)"
    using repliesDoc_meta [of e topicId topic replies w] by blast
next
  fix w0 w'
  assume "refresh_replies e topicId topic w0 = (Inr (), w')"
  then show "\<exists>fetched w1. files w' (repliesFile e topicId)
                          = Some (repliesDoc e topicId topic fetched w1)"
    by (rule refresh_replies_writes)
next
  assume "replies = [] \<and> js_get topic ''replies'' = JNum (Num 0)"
  then show "js_get (js_get (repliesDoc e topicId topic replies w) ''meta'') ''partial'' = JBool False"
    by (simp add: repliesDoc_meta coalesce_def)
next
  assume "length replies = 5 \<and> js_get topic ''replies'' = JNum (Num 10)"
  then show "js_get (js_get (repliesDoc e topicId topic replies w) ''meta'') ''partial'' = JBool True"
    by (simp add: repliesDoc_meta coalesce_def)
qed


lemma env1_refresh_replies:
  "fst (refresh_replies env1 (Num 1) topic1 state0) = Inr ()"
  by (simp add: refresh_replies_def fetchReplies_def env1_simps env1_client_answers
      writeJsonAtomic_def Let_def split: prod.splits)

theorem repliesDoc_partial_witness:
  "js_get (js_get (repliesDoc env1 (Num 1) topic1 (replicate 5 (JObj [])) state0) ''meta'') ''partial''
     = JBool True
   \<and> js_get (js_get (repliesDoc env1 (Num 1) (JObj [(''replies'', JNum (Num 0))]) [] state0) ''meta'')
        ''partial'' = JBool False
   \<and> (\<exists>fetched w1. files (snd (refresh_replies env1 (Num 1) topic1 state0)) (repliesFile env1 (Num 1))
                       = Some (repliesDoc env1 (Num 1) topic1 fetched w1))"
proof -
  have "refresh_replies env1 (Num 1) topic1 state0
      = (Inr (), snd (refresh_replies env1 (Num 1) topic1 state0))"
    using env1_refresh_replies by (simp add: prod_eq_iff)
  moreover have "length (replicate 5 (JObj [])) = 5" "js_get topic1 ''replies'' = JNum (Num 10)"
    "js_get (JObj [(''replies'', JNum (Num 0))]) ''replies'' = JNum (Num 0)"
    by (simp_all add: topic1_def)
  ultimately show ?thesis
    using repliesDoc_partial [of env1 "Num 1" topic1 "replicate 5 (JObj [])" state0]
      repliesDoc_partial [of env1 "Num 1" "JObj [(''replies'', JNum (Num 0))]" "[]" state0]
    by simp
qed



section \<open>The loop over the candidates\<close>

lemma iterable_spread: "iterable v \<Longrightarrow> \<exists>xs. spread (coalesce v (JArr [])) = Inr xs"
  by (simp add: iterable_def split: sum.splits)

lemma snapshotFromLists_object:
  "iterable latest \<Longrightarrow> iterable hot
     \<Longrightarrow> \<exists>props. snapshotFromLists e topicId latest hot = Inr (JObj props)"
  by (auto simp: snapshotFromLists_def Let_def dest!: iterable_spread)

lemma decideRefreshTopic_object:
  "\<exists>b. decideRefreshTopic e doc (JObj props) now ttlMs = Inr b"
  by (auto simp: decideRefreshTopic_def Let_def)

lemma process_topic_returns:
  "iterable latest \<Longrightarrow> iterable hot
     \<Longrightarrow> fst (process_topic e latest hot now ttlMs topicId w) = Inr ()"
proof -
  assume "iterable latest" "iterable hot"
  then obtain props where s: "snapshotFromLists e topicId latest hot = Inr (JObj props)"
    using snapshotFromLists_object by blast
  obtain b where d: "decideRefreshTopic e (readJson w (topicFile e topicId) JNull) (JObj props) now ttlMs = Inr b"
    using decideRefreshTopic_object by blast
  from s d show ?thesis
    by (simp add: process_topic_def Let_def split: prod.splits sum.splits)
qed

lemma for_candidates_returns:
  "iterable latest \<Longrightarrow> iterable hot
     \<Longrightarrow> fst (for_candidates e latest hot now ttlMs ids w) = Inr ()"
proof (induction ids arbitrary: w)
  case Nil
  show ?case by simp
next
  case (Cons topicId rest)
  obtain w1 where "process_topic e latest hot now ttlMs topicId w = (Inr (), w1)"
    using process_topic_returns [OF Cons.prems, of e now ttlMs topicId w]
    by (cases "process_topic e latest hot now ttlMs topicId w") simp
  then show ?case using Cons.IH [OF Cons.prems] by simp
qed

text \<open>
  C9. When the \<^verbatim>\<open>try\<close> of an iteration throws, the loop goes on with the remaining
  candidates from the state the failure left, with \<open>{topic_id, error}\<close> appended to the failed
  list of the report. The loop itself never throws (the lists it reads were spread before
  it started). The \<^verbatim>\<open>try\<close> throws when the topic request fails after its retries, when the
  payload is empty, when the topic document cannot be written, and when fetching or
  writing the replies fails.
\<close>

theorem item_failure_isolated:
  "(snapshotFromLists e topicId latest hot = Inr listSnapshot
     \<and> decideRefreshTopic e (readJson w (topicFile e topicId) JNull) listSnapshot now ttlMs
         = Inr should
     \<and> try_topic e topicId (readJson w (topicFile e topicId) JNull)
          (readJson w (repliesFile e topicId) JNull) listSnapshot should w = (Inl er, w1)
     \<longrightarrow> for_candidates e latest hot now ttlMs (topicId # rest) w
           = for_candidates e latest hot now ttlMs rest (push_failed topicId er w1)
         \<and> failed (report (push_failed topicId er w1))
             = failed (report w1) @ [(topicId, message er)])
   \<and> (iterable latest \<and> iterable hot
        \<longrightarrow> fst (for_candidates e latest hot now ttlMs ids w) = Inr ())
   \<and> (fetchTopic e topicId w = (Inl er, w1)
        \<longrightarrow> try_topic e topicId doc rdoc listSnapshot True w = (Inl er, w1))
   \<and> (fetchTopic e topicId w = (Inr topic, w1) \<and> \<not> truthy topic
        \<longrightarrow> try_topic e topicId doc rdoc listSnapshot True w
              = (Inl (Error (''Empty topic payload for '' @ num_text e topicId)), w1))
   \<and> (fetchTopic e topicId w = (Inr topic, w1) \<and> truthy topic
        \<and> writeJsonAtomic e (topicFile e topicId) (topicDoc e topicId topic listSnapshot w1) w1
            = (Inl er, w2)
        \<longrightarrow> try_topic e topicId doc rdoc listSnapshot True w = (Inl er, w2))
   \<and> (refresh_topic e topicId doc listSnapshot should w = (Inr topic, w1)
        \<and> shouldRefreshReplies e should rdoc topic \<and> truthy topic
        \<and> refresh_replies e topicId topic w1 = (Inl er, w2)
        \<longrightarrow> try_topic e topicId doc rdoc listSnapshot should w = (Inl er, w2))"
proof (intro conjI impI)
  assume "snapshotFromLists e topicId latest hot = Inr listSnapshot
     \<and> decideRefreshTopic e (readJson w (topicFile e topicId) JNull) listSnapshot now ttlMs
         = Inr should
     \<and> try_topic e topicId (readJson w (topicFile e topicId) JNull)
          (readJson w (repliesFile e topicId) JNull) listSnapshot should w = (Inl er, w1)"
  then have "process_topic e latest hot now ttlMs topicId w = (Inr (), push_failed topicId er w1)"
    by (simp add: process_topic_def Let_def)
  then show "for_candidates e latest hot now ttlMs (topicId # rest) w
           = for_candidates e latest hot now ttlMs rest (push_failed topicId er w1)"
    by simp
  show "failed (report (push_failed topicId er w1)) = failed (report w1) @ [(topicId, message er)]"
    by (simp add: push_failed_def)
next
  assume "iterable latest \<and> iterable hot"
  then show "fst (for_candidates e latest hot now ttlMs ids w) = Inr ()"
    by (simp add: for_candidates_returns)
next
  assume "fetchTopic e topicId w = (Inl er, w1)"
  then show "try_topic e topicId doc rdoc listSnapshot True w = (Inl er, w1)"
    by (simp add: try_topic_def refresh_topic_def)
next
  assume "fetchTopic e topicId w = (Inr topic, w1) \<and> \<not> truthy topic"
  then show "try_topic e topicId doc rdoc listSnapshot True w
              = (Inl (Error (''Empty topic payload for '' @ num_text e topicId)), w1)"
    by (simp add: try_topic_def refresh_topic_def)
next
  assume "fetchTopic e topicId w = (Inr topic, w1) \<and> truthy topic
        \<and> writeJsonAtomic e (topicFile e topicId) (topicDoc e topicId topic listSnapshot w1) w1
            = (Inl er, w2)"
  then show "try_topic e topicId doc rdoc listSnapshot True w = (Inl er, w2)"
    by (simp add: try_topic_def refresh_topic_def)
next
  assume "refresh_topic e topicId doc listSnapshot should w = (Inr topic, w1)
        \<and> shouldRefreshReplies e should rdoc topic \<and> truthy topic
        \<and> refresh_replies e topicId topic w1 = (Inl er, w2)"
  then show "try_topic e topicId doc rdoc listSnapshot should w = (Inl er, w2)"
    by (simp add: try_topic_def)
qed

lemma env0_topic_down:
  "try_topic env0 (Num 1) JNull JNull snap True state0
     = (Inl (Error ''down''),
        before_attempt env0 (endpoints_topicById env0 (Num 1)) None (Suc (Suc (Suc 0))) state0)"
  by (simp add: try_topic_def refresh_topic_def fetchTopic_def env0_client_down)

lemma report_before_attempt [simp]: "report (before_attempt e url auth n w) = report w"
  by (induction n) simp_all

theorem item_failure_isolated_witness:
  "for_candidates env0 (JArr [recent_entry]) (JArr []) (Num 2000) (Num 5000) [Num 1] state0
     = (Inr (), push_failed (Num 1) (Error ''down'')
                  (before_attempt env0 (endpoints_topicById env0 (Num 1)) None (Suc (Suc (Suc 0))) state0))
   \<and> failed (report (snd (for_candidates env0 (JArr [recent_entry]) (JArr []) (Num 2000) (Num 5000)
                              [Num 1] state0)))
       = [(Num 1, ''down'')]"
proof -
  let ?snap = "JObj [(''id'', JNum (Num 1)), (''replies'', JNum (Num 0)),
                     (''last_modified'', JNum (Num 0))]"
  have absent: "readJson state0 (topicFile env0 (Num 1)) JNull = JNull"
    "readJson state0 (repliesFile env0 (Num 1)) JNull = JNull"
    by (simp_all add: readJson_def state0_def topicFile_def repliesFile_def env0_simps
        HOT_POOL_FILE_def LATEST_FILE_def)
  have "snapshotFromLists env0 (Num 1) (JArr [recent_entry]) (JArr []) = Inr ?snap"
    by (simp add: snapshotFromLists_def coalesce_def recent_entry_def topic_id_def num_eq_def)
  moreover have "decideRefreshTopic env0 JNull ?snap (Num 2000) (Num 5000) = Inr True"
    by (simp add: decideRefreshTopic_def)
  moreover have "failed (report state0) = []"
    by (simp add: state0_def empty_report_def)
  ultimately show ?thesis
    using item_failure_isolated [of env0 "Num 1" "JArr [recent_entry]" "JArr []" ?snap state0
        "Num 2000" "Num 5000" True "Error ''down''"
        "before_attempt env0 (endpoints_topicById env0 (Num 1)) None (Suc (Suc (Suc 0))) state0" "[]"]
      env0_topic_down [of ?snap] absent
    by (simp add: push_failed_def)
qed


section \<open>List failures\<close>

lemma map_of_obj_set: "map_of (obj_set obj k v) k = Some v"
proof (cases "map_of obj k = None")
  case True
  then show ?thesis by (simp add: obj_set_def map_add_Some_iff)
next
  case False
  have "map_of obj k \<noteq> None \<Longrightarrow>
      map_of (map (\<lambda>(k', v'). if k' = k then (k', v) else (k', v')) obj) k = Some v"
  proof (induction obj)
    case Nil
    then show ?case by simp
  next
    case (Cons kv obj)
    then show ?case by (cases kv) (auto split: if_splits)
  qed
  with False show ?thesis by (auto simp: obj_set_def)
qed

lemma files_write:
  "writeJsonAtomic e file data w = (r, w') \<Longrightarrow>
     files w' = (case r of Inl er \<Rightarrow> files w | Inr u \<Rightarrow> (files w)(file \<mapsto> data))"
  by (auto simp: writeJsonAtomic_def Let_def split: option.splits)

lemma files_set_list_report [simp]: "files (set_list_report name entry w) = files w"
  by (simp add: set_list_report_def)

lemma lists_set_list_report:
  "map_of (lists (report (set_list_report name entry w))) name = Some entry"
  by (simp add: set_list_report_def map_of_obj_set)

lemma retry_from_provenance:
  "fetchJsonWithRetry_from e url auth i le w = (Inr data, w')
     \<Longrightarrow> \<exists>k st. net e k url auth = Response st (Inr data) \<and> response_ok st"
proof (induction e url auth i le w rule: fetchJsonWithRetry_from.induct)
  case (1 e url auth i le w)
  show ?case
  proof (cases "i < retries e")
    case False
    with "1.prems" show ?thesis by (simp add: fetchJsonWithRetry_from.simps)
  next
    case True
    obtain r w1 where a: "attempt e url auth w = (r, w1)"
      by (cases "attempt e url auth w")
    show ?thesis
    proof (cases r)
      case (Inr d)
      with True a "1.prems" have "d = data"
        by (simp add: retry_step_ok)
      with Inr a have "response_result e url (net e (length (trace (waitRateLimit e w))) url auth) = Inr data"
        using attempt_result [of e url auth w] by simp
      then show ?thesis
        by (auto simp: response_result_ok response_ok_def)
    next
      case (Inl er)
      with True a "1.prems" have
        "fetchJsonWithRetry_from e url auth (i + 1) (Some er) (sleep e (backoff e i) w1) = (Inr data, w')"
        by (simp add: retry_step_fail)
      with "1.IH" [OF True a [symmetric] Inl] show ?thesis by simp
    qed
  qed
qed

lemma fetchJsonWithRetry_provenance:
  "fetchJsonWithRetry e url auth w = (Inr data, w')
     \<Longrightarrow> \<exists>k st. net e k url auth = Response st (Inr data) \<and> response_ok st"
  using retry_from_provenance [of e url auth 0 None w data w'] by (simp add: fetchJsonWithRetry_def)

lemma fetchAndPersistList_fallback:
  assumes "fetchJsonWithRetry e url None w = (Inl er, w1)"
  shows "fetchAndPersistList e name url filePath w
           = (readJson w filePath (JArr []),
              set_list_report name (fallback_entry (readJson w filePath (JArr [])) url er) w1)"
    and "files w1 = files w"
  using assms frame_fetchJsonWithRetry [OF assms]
  by (simp_all add: fetchAndPersistList_def Let_def)

lemma fetchAndPersistList_value:
  assumes run: "fetchAndPersistList e name url filePath w = (v, w')"
    and old: "iterable (readJson w filePath (JArr []))"
    and new: "\<forall>k auth st data. net e k url auth = Response st (Inr data) \<and> response_ok st
               \<longrightarrow> iterable data"
  shows "iterable v"
proof -
  obtain r w1 where f: "fetchJsonWithRetry e url None w = (r, w1)"
    by (cases "fetchJsonWithRetry e url None w")
  show ?thesis
  proof (cases r)
    case (Inl er)
    with run f old show ?thesis by (auto simp: fetchAndPersistList_def Let_def)
  next
    case (Inr data)
    with f new have "iterable data"
      using fetchJsonWithRetry_provenance [of e url None w data w1] by blast
    with run f Inr old show ?thesis
      by (auto simp: fetchAndPersistList_def Let_def split: prod.splits sum.splits)
  qed
qed

lemma fetchAndPersistList_files:
  assumes run: "fetchAndPersistList e name url filePath w = (v, w')" and other: "p \<noteq> filePath"
  shows "files w' p = files w p"
proof -
  obtain r w1 where f: "fetchJsonWithRetry e url None w = (r, w1)"
    by (cases "fetchJsonWithRetry e url None w")
  then have same: "files w1 = files w" using frame_fetchJsonWithRetry by blast
  show ?thesis
  proof (cases r)
    case (Inl er)
    with run f same show ?thesis by (auto simp: fetchAndPersistList_def Let_def)
  next
    case (Inr data)
    obtain r2 w2 where wr: "writeJsonAtomic e filePath data w1 = (r2, w2)"
      by (cases "writeJsonAtomic e filePath data w1")
    then have "files w2 p = files w1 p"
      using files_write [OF wr] other by (cases r2) simp_all
    with run f Inr wr same show ?thesis
      by (cases r2) (auto simp: fetchAndPersistList_def Let_def)
  qed
qed

lemma ensureDirs_returns:
  "\<forall>k path. fs_failure e k path = None
     \<Longrightarrow> \<exists>w1. ensureDirs e dirs w = (Inr (), w1) \<and> files w1 = files w"
proof (induction dirs arbitrary: w)
  case Nil
  show ?case by simp
next
  case (Cons dir dirs)
  let ?w' = "w\<lparr>clock := clock w + int (lag e (length (trace w))), trace := trace w @ [Mkdir dir]\<rparr>"
  obtain w1 where "ensureDirs e dirs ?w' = (Inr (), w1)" "files w1 = files ?w'"
    using Cons.IH [OF Cons.prems, of ?w'] by blast
  with Cons.prems show ?case by (simp add: Let_def)
qed

lemma updateHotPool_returns:
  "iterable (readJson w HOT_POOL_FILE (JArr [])) \<Longrightarrow> iterable currentHot
     \<Longrightarrow> fs_failure e (length (trace w)) HOT_POOL_FILE = None
     \<Longrightarrow> \<exists>pool w'. updateHotPool e currentHot w = (Inr pool, w')"
  by (auto simp: updateHotPool_def mergeTopicLists_def coalesce_idem writeJsonAtomic_def Let_def
      dest!: iterable_spread)

lemma persist_state_returns:
  "\<forall>k path. fs_failure e k path = None \<Longrightarrow> \<not> nullish previousState
     \<Longrightarrow> fst (persist_state e previousState ids w) = Inr ()"
  by (simp add: persist_state_def writeJsonAtomic_def Let_def)

lemma sync_topics_returns:
  assumes fs: "\<forall>k path. fs_failure e k path = None" and prev: "\<not> nullish previousState"
    and l: "iterable latest" and h: "iterable hot"
  shows "fst (sync_topics e previousState latest hot hotPool w) = Inr ()"
proof -
  from l obtain xs where xs: "spread (coalesce latest (JArr [])) = Inr xs"
    using iterable_spread by blast
  let ?ids = "dedupeTopicIds e (xs @ hotPool)"
  let ?w1 = "w\<lparr>report := (report w)\<lparr>candidates := length ?ids\<rparr>\<rparr>"
  obtain w2 where "for_candidates e latest hot (Date_now ?w1) (refreshTtlMs e) ?ids ?w1 = (Inr (), w2)"
    using for_candidates_returns [OF l h, of e "Date_now ?w1" "refreshTtlMs e" ?ids ?w1]
    by (cases "for_candidates e latest hot (Date_now ?w1) (refreshTtlMs e) ?ids ?w1") simp
  with xs show ?thesis
    using persist_state_returns [OF fs prev, of ?ids w2]
    by (simp add: sync_topics_def Let_def)
qed

lemma list_paths_distinct:
  "HOT_FILE \<noteq> LATEST_FILE" "HOT_POOL_FILE \<noteq> LATEST_FILE" "HOT_POOL_FILE \<noteq> HOT_FILE"
  by (simp_all add: HOT_FILE_def LATEST_FILE_def HOT_POOL_FILE_def)

lemma main_returns:
  assumes fs: "\<forall>k path. fs_failure e k path = None"
    and prev: "\<not> nullish (readJson w STATE_FILE (JObj []))"
    and old: "iterable (readJson w LATEST_FILE (JArr []))" "iterable (readJson w HOT_FILE (JArr []))"
      "iterable (readJson w HOT_POOL_FILE (JArr []))"
    and new: "\<forall>k auth st data. net e k endpoints_latest auth = Response st (Inr data) \<and> response_ok st
               \<longrightarrow> iterable data"
      "\<forall>k auth st data. net e k endpoints_hot auth = Response st (Inr data) \<and> response_ok st
               \<longrightarrow> iterable data"
  shows "fst (main e w) = Inr ()"
proof -
  obtain w1 where dirs:
    "ensureDirs e [INDEX_DIR, NODES_DIR, TOPICS_DIR, REPLIES_DIR, META_DIR] w = (Inr (), w1)"
    and f1: "files w1 = files w"
    using ensureDirs_returns [OF fs] by blast
  let ?w2 = "w1\<lparr>report := \<lparr>started_at = toISOString e (clock w), finished_at = None,
               lists = [], candidates = 0, refreshed = 0, skipped = 0, failed = []\<rparr>\<rparr>"
  have f2: "files ?w2 = files w" using f1 by simp
  obtain latest w3 where l: "fetchAndPersistList e ''latest'' endpoints_latest LATEST_FILE ?w2 = (latest, w3)"
    by (cases "fetchAndPersistList e ''latest'' endpoints_latest LATEST_FILE ?w2")
  obtain hot w4 where h: "fetchAndPersistList e ''hot'' endpoints_hot HOT_FILE w3 = (hot, w4)"
    by (cases "fetchAndPersistList e ''hot'' endpoints_hot HOT_FILE w3")
  have il: "iterable latest"
    using fetchAndPersistList_value [OF l _ new(1)] old(1) f2 by (simp add: readJson_def)
  have f3: "files w3 HOT_FILE = files w HOT_FILE" "files w3 HOT_POOL_FILE = files w HOT_POOL_FILE"
    using fetchAndPersistList_files [OF l] f2 list_paths_distinct by simp_all
  have ih: "iterable hot"
    using fetchAndPersistList_value [OF h _ new(2)] old(2) f3(1) by (simp add: readJson_def)
  have f4: "files w4 HOT_POOL_FILE = files w HOT_POOL_FILE"
    using fetchAndPersistList_files [OF h] f3(2) list_paths_distinct by simp
  then have "iterable (readJson w4 HOT_POOL_FILE (JArr []))"
    using old(3) by (simp add: readJson_def)
  then obtain hotPool w5 where u: "updateHotPool e hot w4 = (Inr hotPool, w5)"
    using updateHotPool_returns [OF _ ih] fs by blast
  let ?w6 = "set_list_report ''hot_pool''
      \<lparr>status = ''updated'', count = length hotPool, source = HOT_POOL_FILE, err = None\<rparr> w5"
  obtain nodes w7 where n: "fetchAndPersistList e ''nodes'' endpoints_nodes NODES_FILE ?w6 = (nodes, w7)"
    by (cases "fetchAndPersistList e ''nodes'' endpoints_nodes NODES_FILE ?w6")
  have "readJson w1 STATE_FILE (JObj []) = readJson w STATE_FILE (JObj [])"
    using f1 by (simp add: readJson_def)
  with prev have "fst (sync_topics e (readJson w1 STATE_FILE (JObj [])) latest hot hotPool w7) = Inr ()"
    using sync_topics_returns [OF fs _ il ih] by simp
  with dirs l h u n show ?thesis
    by (simp add: main_def Let_def del: ensureDirs.simps)
qed

section \<open>The replies of one topic\<close>

lemma request_urls_append: "request_urls (xs @ ys) = request_urls xs @ request_urls ys"
  by (induction xs rule: request_urls.induct) simp_all

lemma attempt_requests:
  "\<exists>evs. trace (snd (attempt e url auth w)) = trace w @ evs \<and> request_urls evs = [url]"
proof -
  have "\<exists>evs. trace (waitRateLimit e w) = trace w @ evs \<and> request_urls evs = []"
    by (simp add: waitRateLimit_trace)
  then obtain evs where "trace (waitRateLimit e w) = trace w @ evs" "request_urls evs = []"
    by blast
  then have "trace (snd (attempt e url auth w)) = trace w @ (evs @ [Request (clock (waitRateLimit e w)) url])
      \<and> request_urls (evs @ [Request (clock (waitRateLimit e w)) url]) = [url]"
    by (simp add: attempt_trace request_urls_append)
  then show ?thesis by blast
qed

lemma retry_from_requests:
  "\<exists>evs. trace (snd (fetchJsonWithRetry_from e url auth i le w)) = trace w @ evs
     \<and> set (request_urls evs) \<subseteq> {url}
     \<and> (i < retries e \<longrightarrow> url \<in> set (request_urls evs))"
proof (induction e url auth i le w rule: fetchJsonWithRetry_from.induct)
  case (1 e url auth i le w)
  show ?case
  proof (cases "i < retries e")
    case False
    then show ?thesis by (subst fetchJsonWithRetry_from.simps) simp
  next
    case True
    obtain r w' where a: "attempt e url auth w = (r, w')"
      by (cases "attempt e url auth w")
    obtain evs where evs: "trace w' = trace w @ evs" "request_urls evs = [url]"
      using attempt_requests [of e url auth w] a by auto
    show ?thesis
    proof (cases r)
      case (Inr data)
      with True a evs show ?thesis
        by (subst fetchJsonWithRetry_from.simps) simp
    next
      case (Inl er)
      with 1 [OF True a [symmetric]] obtain evs' where
        "trace (snd (fetchJsonWithRetry_from e url auth (i + 1) (Some er) (sleep e (backoff e i) w')))
           = trace (sleep e (backoff e i) w') @ evs'"
        "set (request_urls evs') \<subseteq> {url}"
        by auto
      with evs have "trace (snd (fetchJsonWithRetry_from e url auth (i + 1) (Some er)
             (sleep e (backoff e i) w'))) = trace w @ (evs @ Sleep (backoff e i) # evs')
          \<and> set (request_urls (evs @ Sleep (backoff e i) # evs')) \<subseteq> {url}
          \<and> url \<in> set (request_urls (evs @ Sleep (backoff e i) # evs'))"
        by (simp add: trace_sleep request_urls_append)
      with True a Inl show ?thesis
        by (subst fetchJsonWithRetry_from.simps) auto
    qed
  qed
qed

lemma fetchJsonWithRetry_requests:
  "fetchJsonWithRetry e url auth w = (r, w') \<Longrightarrow>
     \<exists>evs. trace w' = trace w @ evs \<and> set (request_urls evs) \<subseteq> {url}
       \<and> (0 < retries e \<longrightarrow> url \<in> set (request_urls evs))"
  using retry_from_requests [of e url auth 0 None w] by (simp add: fetchJsonWithRetry_def)

lemma trace_write:
  "writeJsonAtomic e file data w = (r, w') \<Longrightarrow> trace w' = trace w @ [Write file]"
  by (auto simp: writeJsonAtomic_def Let_def split: option.splits)

lemma fetchReplies_pages_trace:
  "\<exists>evs. trace (snd (fetchReplies_pages e topicId token p all w)) = trace w @ evs"
proof (induction e topicId token p all w rule: fetchReplies_pages.induct)
  case (1 e topicId token p all w)
  show ?case
  proof (cases "p \<le> 50")
    case False
    then show ?thesis by (subst fetchReplies_pages.simps) simp
  next
    case True
    obtain r w1 where f: "fetchJsonWithRetry e (endpoints_v2Replies e topicId p) (Some token) w = (r, w1)"
      by (cases "fetchJsonWithRetry e (endpoints_v2Replies e topicId p) (Some token) w")
    then obtain evs where evs: "trace w1 = trace w @ evs"
      using fetchJsonWithRetry_requests by blast
    show ?thesis
    proof (cases r)
      case (Inl er)
      with True f evs show ?thesis by (subst fetchReplies_pages.simps) simp
    next
      case (Inr page)
      show ?thesis
      proof (cases "page_items page = [] \<or> length (page_items page) < 50")
        case True
        with \<open>p \<le> 50\<close> f Inr evs show ?thesis
          by (subst fetchReplies_pages.simps) (auto simp: Let_def)
      next
        case False
        with 1 [OF \<open>p \<le> 50\<close> f [symmetric] Inr refl] obtain evs' where
          "trace (snd (fetchReplies_pages e topicId token (p + 1) (all @ page_items page) w1))
             = trace w1 @ evs'"
          by auto
        with evs have "trace (snd (fetchReplies_pages e topicId token (p + 1) (all @ page_items page) w1))
             = trace w @ (evs @ evs')"
          by simp
        with \<open>p \<le> 50\<close> f Inr False show ?thesis
          by (subst fetchReplies_pages.simps) (simp add: Let_def)
      qed
    qed
  qed
qed

lemma fetchReplies_pages_first:
  assumes "0 < retries e"
  shows "\<exists>evs. trace (snd (fetchReplies_pages e topicId token 1 [] w)) = trace w @ evs
     \<and> endpoints_v2Replies e topicId 1 \<in> set (request_urls evs)"
proof -
  let ?url = "endpoints_v2Replies e topicId 1"
  obtain r w1 where f: "fetchJsonWithRetry e ?url (Some token) w = (r, w1)"
    by (cases "fetchJsonWithRetry e ?url (Some token) w")
  then obtain evs where evs: "trace w1 = trace w @ evs" "?url \<in> set (request_urls evs)"
    using fetchJsonWithRetry_requests [OF f] assms by blast
  show ?thesis
  proof (cases r)
    case (Inl er)
    with f evs show ?thesis by (subst fetchReplies_pages.simps) auto
  next
    case (Inr page)
    show ?thesis
    proof (cases "page_items page = [] \<or> length (page_items page) < 50")
      case True
      with f Inr evs show ?thesis
        by (subst fetchReplies_pages.simps) (auto simp: Let_def)
    next
      case False
      obtain evs' where
        "trace (snd (fetchReplies_pages e topicId token (1 + 1) ([] @ page_items page) w1))
           = trace w1 @ evs'"
        using fetchReplies_pages_trace by blast
      with evs have "trace (snd (fetchReplies_pages e topicId token (1 + 1) ([] @ page_items page) w1))
           = trace w @ (evs @ evs') \<and> ?url \<in> set (request_urls (evs @ evs'))"
        by (simp add: request_urls_append)
      with f Inr False show ?thesis
        by (subst fetchReplies_pages.simps) (auto simp: Let_def)
    qed
  qed
qed

lemma fetchReplies_requests:
  assumes "0 < retries e"
  shows "\<exists>evs. trace (snd (fetchReplies e topicId w)) = trace w @ evs
     \<and> replies_url e topicId \<in> set (request_urls evs)"
proof (cases "\<exists>token. V2EX_TOKEN e = Some token \<and> token \<noteq> []")
  case True
  then obtain token where t: "V2EX_TOKEN e = Some token" "token \<noteq> []" by blast
  then show ?thesis
    using fetchReplies_pages_first [OF assms, of topicId token w]
    by (simp add: fetchReplies_def replies_url_def)
next
  case False
  let ?url = "endpoints_repliesByTopicId e topicId"
  obtain r w1 where f: "fetchJsonWithRetry e ?url None w = (r, w1)"
    by (cases "fetchJsonWithRetry e ?url None w")
  then obtain evs where "trace w1 = trace w @ evs" "?url \<in> set (request_urls evs)"
    using fetchJsonWithRetry_requests [OF f] assms by blast
  with f False show ?thesis
    by (cases r) (auto simp: fetchReplies_def replies_url_def split: option.splits)
qed

lemma refresh_replies_requests:
  assumes "0 < retries e"
  shows "\<exists>evs. trace (snd (refresh_replies e topicId topic w)) = trace w @ evs
     \<and> replies_url e topicId \<in> set (request_urls evs)"
proof -
  obtain r w1 where f: "fetchReplies e topicId w = (r, w1)"
    by (cases "fetchReplies e topicId w")
  then obtain evs where evs: "trace w1 = trace w @ evs" "replies_url e topicId \<in> set (request_urls evs)"
    using fetchReplies_requests [OF assms, of topicId w] by auto
  show ?thesis
  proof (cases r)
    case (Inl er)
    with f evs show ?thesis by (auto simp: refresh_replies_def)
  next
    case (Inr replies)
    obtain r2 w2 where wr: "writeJsonAtomic e (repliesFile e topicId)
        (repliesDoc e topicId topic replies w1) w1 = (r2, w2)"
      by (cases "writeJsonAtomic e (repliesFile e topicId) (repliesDoc e topicId topic replies w1) w1")
    then have "trace w2 = trace w @ (evs @ [Write (repliesFile e topicId)])"
      using trace_write [OF wr] evs by simp
    moreover have "replies_url e topicId \<in> set (request_urls (evs @ [Write (repliesFile e topicId)]))"
      using evs by (simp add: request_urls_append)
    ultimately show ?thesis
      using f Inr wr by (auto simp: refresh_replies_def)
  qed
qed

lemma replies_url_not_topic: "replies_url e topicId \<noteq> endpoints_topicById e topicId'"
  by (simp add: replies_url_def endpoints_topicById_def endpoints_repliesByTopicId_def
      endpoints_v2Replies_def split: option.splits)

lemma files_write_failed:
  "writeJsonAtomic e file data w = (Inl er, w') \<Longrightarrow> files w' = files w"
  by (auto simp: writeJsonAtomic_def Let_def split: option.splits)

lemma refresh_topic_failed:
  assumes run: "refresh_topic e topicId doc listSnapshot should w = (Inl er, w1)"
  shows "files w1 = files w
     \<and> (\<exists>evs. trace w1 = trace w @ evs \<and> replies_url e topicId \<notin> set (request_urls evs))"
proof -
  from run have should by (auto simp: refresh_topic_def split: if_splits)
  obtain r w2 where f: "fetchTopic e topicId w = (r, w2)"
    by (cases "fetchTopic e topicId w")
  then have "\<exists>r'. fetchJsonWithRetry e (endpoints_topicById e topicId) None w = (r', w2)"
    by (auto simp: fetchTopic_def split: prod.splits sum.splits json.splits list.splits)
  then obtain evs where evs: "trace w2 = trace w @ evs"
    "set (request_urls evs) \<subseteq> {endpoints_topicById e topicId}"
    using fetchJsonWithRetry_requests by blast
  then have no: "replies_url e topicId \<notin> set (request_urls evs)"
    using replies_url_not_topic [of e topicId topicId] by auto
  from f have same: "files w2 = files w" using frame_fetchTopic by blast
  show ?thesis
  proof (cases r)
    case (Inl er')
    with run \<open>should\<close> f have "w1 = w2" by (simp add: refresh_topic_def)
    with evs no same show ?thesis by auto
  next
    case (Inr topic)
    show ?thesis
    proof (cases "truthy topic")
      case False
      with run \<open>should\<close> f Inr have "w1 = w2" by (simp add: refresh_topic_def)
      with evs no same show ?thesis by auto
    next
      case True
      with run \<open>should\<close> f Inr
      have wr: "writeJsonAtomic e (topicFile e topicId) (topicDoc e topicId topic listSnapshot w2) w2
          = (Inl er, w1)"
        by (auto simp: refresh_topic_def split: prod.splits sum.splits)
      then have "trace w1 = trace w @ (evs @ [Write (topicFile e topicId)])"
        "files w1 = files w"
        using trace_write [OF wr] files_write_failed [OF wr] evs same by simp_all
      moreover have "replies_url e topicId \<notin> set (request_urls (evs @ [Write (topicFile e topicId)]))"
        using no by (simp add: request_urls_append)
      ultimately show ?thesis by blast
    qed
  qed
qed

lemma env1_refresh_topic:
  "fst (refresh_topic env1 (Num 1) JNull snap0 True state0) = Inr topic1"
  by (simp add: refresh_topic_def fetchTopic_def env1_simps env1_client_answers
      writeJsonAtomic_def Let_def topic1_def split: prod.splits)

lemma files_before_attempt [simp]: "files (before_attempt e url auth n w) = files w"
  by (induction n) simp_all

lemma env0_process_topic_down:
  "process_topic env0 (JArr [recent_entry]) (JArr []) (Num 2000) (Num 5000) (Num 1) state0
     = (Inr (), push_failed (Num 1) (Error ''down'')
                  (before_attempt env0 (endpoints_topicById env0 (Num 1)) None (Suc (Suc (Suc 0))) state0))"
proof -
  let ?snap = "JObj [(''id'', JNum (Num 1)), (''replies'', JNum (Num 0)),
                     (''last_modified'', JNum (Num 0))]"
  have absent: "readJson state0 (topicFile env0 (Num 1)) JNull = JNull"
    "readJson state0 (repliesFile env0 (Num 1)) JNull = JNull"
    by (simp_all add: readJson_def state0_def topicFile_def repliesFile_def env0_simps
        HOT_POOL_FILE_def LATEST_FILE_def)
  have "snapshotFromLists env0 (Num 1) (JArr [recent_entry]) (JArr []) = Inr ?snap"
    by (simp add: snapshotFromLists_def coalesce_def recent_entry_def topic_id_def num_eq_def)
  moreover have "decideRefreshTopic env0 JNull ?snap (Num 2000) (Num 5000) = Inr True"
    by (simp add: decideRefreshTopic_def)
  ultimately show ?thesis
    using env0_topic_down [of ?snap] absent by (simp add: process_topic_def)
qed

text \<open>
  C5, as the specification states it: the replies are fetched again whenever no replies
  document exists. They are not when the refresh of the topic itself fails: with the network
  down and neither document on disk, the iteration for topic 1 asks three times for the
  topic, records the failure, and neither asks for the replies nor writes a replies file.
\<close>

theorem replies_not_fetched_after_failure:
  "readJson state0 (repliesFile env0 (Num 1)) JNull = JNull
   \<and> shouldRefreshReplies env0 True JNull JNull
   \<and> fst (process_topic env0 (JArr [recent_entry]) (JArr []) (Num 2000) (Num 5000) (Num 1) state0)
       = Inr ()
   \<and> request_urls (trace (snd (process_topic env0 (JArr [recent_entry]) (JArr []) (Num 2000)
                                  (Num 5000) (Num 1) state0)))
       = [''https://www.v2ex.com/api/topics/show.json?id=1'',
          ''https://www.v2ex.com/api/topics/show.json?id=1'',
          ''https://www.v2ex.com/api/topics/show.json?id=1'']
   \<and> replies_url env0 (Num 1) = ''https://www.v2ex.com/api/replies/show.json?topic_id=1''
   \<and> files (snd (process_topic env0 (JArr [recent_entry]) (JArr []) (Num 2000) (Num 5000)
                    (Num 1) state0)) (repliesFile env0 (Num 1)) = None
   \<and> failed (report (snd (process_topic env0 (JArr [recent_entry]) (JArr []) (Num 2000)
                             (Num 5000) (Num 1) state0))) = [(Num 1, ''down'')]"
proof -
  have "trace (before_attempt env0 (endpoints_topicById env0 (Num 1)) None (Suc (Suc (Suc 0))) state0)
      = [Request 3456000000 (endpoints_topicById env0 (Num 1)), Sleep (Num 700),
         Request 3456000700 (endpoints_topicById env0 (Num 1)), Sleep (Num 1400),
         Request 3456002100 (endpoints_topicById env0 (Num 1)), Sleep (Num 2100)]"
    by (rule env0_attempts(4))
  moreover have "endpoints_topicById env0 (Num 1) = ''https://www.v2ex.com/api/topics/show.json?id=1''"
    "replies_url env0 (Num 1) = ''https://www.v2ex.com/api/replies/show.json?topic_id=1''"
    by (simp_all add: endpoints_topicById_def replies_url_def endpoints_repliesByTopicId_def
        env0_simps)
  moreover have "readJson state0 (repliesFile env0 (Num 1)) JNull = JNull"
    "files state0 (repliesFile env0 (Num 1)) = None"
    by (simp_all add: readJson_def state0_def repliesFile_def env0_simps
        HOT_POOL_FILE_def LATEST_FILE_def)
  moreover have "failed (report state0) = []"
    by (simp add: state0_def empty_report_def)
  ultimately show ?thesis
    by (simp add: env0_process_topic_down push_failed_def shouldRefreshReplies_def)
qed

text \<open>
  C5, as the code has it. When the topic half of an iteration has gone through (the topic
  was refreshed, or the decision was to keep it), the replies are fetched again exactly when
  the topic was refreshed in this iteration, or there is no replies document
  (\<^verbatim>\<open>readJson\<close> gave null or another falsy value), or its \<open>meta.reply_count\<close> and the topic's
  \<open>replies\<close> differ under \<^verbatim>\<open>Number(..) !== Number(..)\<close>. Fetching them again issues a request
  for the replies of the topic and, when nothing fails, leaves a replies document in the
  replies file; otherwise no request is made and no file is written. When the topic half
  throws, the iteration ends there: no request for the replies, and no file changed.
\<close>

theorem replies_refetch_decision:
  "(refresh_topic e topicId existingTopicDoc listSnapshot shouldRefreshTopic w = (Inr topic, w1)
     \<and> decideRefreshTopic e existingTopicDoc listSnapshot now ttlMs = Inr shouldRefreshTopic
     \<and> 0 < retries e
     \<longrightarrow> (shouldRefreshReplies e shouldRefreshTopic existingRepliesDoc topic
            \<longleftrightarrow> shouldRefreshTopic
                \<or> \<not> truthy existingRepliesDoc
                \<or> \<not> num_eq
                      (Number_of e (coalesce (js_get (js_get existingRepliesDoc ''meta'') ''reply_count'')
                                             (JNum (Num (- 1)))))
                      (Number_of e (coalesce (js_get topic ''replies'') (JNum (Num (- 2))))))
         \<and> (shouldRefreshTopic \<longleftrightarrow> refreshed (report w1) = Suc (refreshed (report w)))
         \<and> (shouldRefreshReplies e shouldRefreshTopic existingRepliesDoc topic
              \<longrightarrow> try_topic e topicId existingTopicDoc existingRepliesDoc listSnapshot
                     shouldRefreshTopic w = refresh_replies e topicId topic w1
                  \<and> (\<exists>evs. trace (snd (try_topic e topicId existingTopicDoc existingRepliesDoc
                                         listSnapshot shouldRefreshTopic w)) = trace w1 @ evs
                           \<and> replies_url e topicId \<in> set (request_urls evs))
                  \<and> (fst (try_topic e topicId existingTopicDoc existingRepliesDoc listSnapshot
                            shouldRefreshTopic w) = Inr ()
                       \<longrightarrow> (\<exists>replies w2.
                              files (snd (try_topic e topicId existingTopicDoc existingRepliesDoc
                                            listSnapshot shouldRefreshTopic w)) (repliesFile e topicId)
                                = Some (repliesDoc e topicId topic replies w2))))
         \<and> (\<not> shouldRefreshReplies e shouldRefreshTopic existingRepliesDoc topic
              \<longrightarrow> try_topic e topicId existingTopicDoc existingRepliesDoc listSnapshot
                     shouldRefreshTopic w = (Inr (), w1)))
   \<and> (refresh_topic e topicId existingTopicDoc listSnapshot shouldRefreshTopic w = (Inl er, w1)
        \<longrightarrow> try_topic e topicId existingTopicDoc existingRepliesDoc listSnapshot shouldRefreshTopic w
              = (Inl er, w1)
            \<and> files w1 = files w
            \<and> (\<exists>evs. trace w1 = trace w @ evs \<and> replies_url e topicId \<notin> set (request_urls evs)))"
proof (intro conjI impI)
  assume h: "refresh_topic e topicId existingTopicDoc listSnapshot shouldRefreshTopic w = (Inr topic, w1)
     \<and> decideRefreshTopic e existingTopicDoc listSnapshot now ttlMs = Inr shouldRefreshTopic
     \<and> 0 < retries e"
  have t: "truthy topic"
  proof (cases shouldRefreshTopic)
    case True
    with h show ?thesis
      using refresh_topic_truthy [of e topicId existingTopicDoc listSnapshot w topic w1] by simp
  next
    case False
    with h have "truthy (js_get existingTopicDoc ''topic'')"
      using decide_skip_topic [of e existingTopicDoc listSnapshot now ttlMs] by simp
    moreover from h False have "topic = coalesce (js_get existingTopicDoc ''topic'') JNull"
      by (simp add: refresh_topic_def)
    ultimately show ?thesis by (simp add: truthy_coalesce)
  qed
  show "shouldRefreshReplies e shouldRefreshTopic existingRepliesDoc topic
            \<longleftrightarrow> shouldRefreshTopic
                \<or> \<not> truthy existingRepliesDoc
                \<or> \<not> num_eq
                      (Number_of e (coalesce (js_get (js_get existingRepliesDoc ''meta'') ''reply_count'')
                                             (JNum (Num (- 1)))))
                      (Number_of e (coalesce (js_get topic ''replies'') (JNum (Num (- 2)))))"
    by (simp add: shouldRefreshReplies_def)
  from h show "shouldRefreshTopic \<longleftrightarrow> refreshed (report w1) = Suc (refreshed (report w))"
    using refresh_topic_counts [of e topicId existingTopicDoc listSnapshot shouldRefreshTopic w topic w1]
    by auto
  {
    assume s: "shouldRefreshReplies e shouldRefreshTopic existingRepliesDoc topic"
    with h t show run: "try_topic e topicId existingTopicDoc existingRepliesDoc listSnapshot
        shouldRefreshTopic w = refresh_replies e topicId topic w1"
      by (simp add: try_topic_def)
    from h show "\<exists>evs. trace (snd (try_topic e topicId existingTopicDoc existingRepliesDoc
                                         listSnapshot shouldRefreshTopic w)) = trace w1 @ evs
                           \<and> replies_url e topicId \<in> set (request_urls evs)"
      using refresh_replies_requests [of e topicId topic w1] run by simp
    assume "fst (try_topic e topicId existingTopicDoc existingRepliesDoc listSnapshot
                            shouldRefreshTopic w) = Inr ()"
    with run have "refresh_replies e topicId topic w1
        = (Inr (), snd (try_topic e topicId existingTopicDoc existingRepliesDoc listSnapshot
                            shouldRefreshTopic w))"
      by (simp add: prod_eq_iff)
    then show "\<exists>replies w2.
        files (snd (try_topic e topicId existingTopicDoc existingRepliesDoc
                      listSnapshot shouldRefreshTopic w)) (repliesFile e topicId)
          = Some (repliesDoc e topicId topic replies w2)"
      by (rule refresh_replies_writes)
  }
  assume "\<not> shouldRefreshReplies e shouldRefreshTopic existingRepliesDoc topic"
  with h show "try_topic e topicId existingTopicDoc existingRepliesDoc listSnapshot
                     shouldRefreshTopic w = (Inr (), w1)"
    by (simp add: try_topic_def)
next
  assume f: "refresh_topic e topicId existingTopicDoc listSnapshot shouldRefreshTopic w = (Inl er, w1)"
  then show "try_topic e topicId existingTopicDoc existingRepliesDoc listSnapshot shouldRefreshTopic w
              = (Inl er, w1)"
    by (simp add: try_topic_def)
  from f show "files w1 = files w"
    "\<exists>evs. trace w1 = trace w @ evs \<and> replies_url e topicId \<notin> set (request_urls evs)"
    using refresh_topic_failed by blast+
qed

lemma env2_more:
  "fs_failure env2 k path = None" "V2EX_TOKEN env2 = None"
  "num_text env2 n = (if n = Num 1 then ''1'' else if n = Num 2 then ''2'' else ''n'')"
  "toISOString env2 i = ''1970-01-01T00:00:01.000Z''"
  by (simp_all add: env2_def env0_def)

lemma env2_replies_written:
  "fst (refresh_replies env2 (Num 5) topic (state0\<lparr>report := (report state0)\<lparr>skipped := 1\<rparr>\<rparr>)) = Inr ()"
proof -
  let ?w1 = "state0\<lparr>report := (report state0)\<lparr>skipped := 1\<rparr>\<rparr>"
  have "fetchJsonWithRetry env2 (endpoints_repliesByTopicId env2 (Num 5)) None ?w1
      = (Inr (JArr [topic1]), snd (attempt env2 (endpoints_repliesByTopicId env2 (Num 5)) None ?w1))"
    by (rule answered_at_once) (simp_all add: client_defs env2_simps state0_def)
  then show ?thesis
    by (simp add: refresh_replies_def fetchReplies_def env2_more writeJsonAtomic_def Let_def
        split: prod.splits)
qed

theorem replies_refetch_decision_witness:
  "try_topic env0 (Num 5) doc0 replies_doc0 snap0 False state0
     = (Inr (), state0\<lparr>report := (report state0)\<lparr>skipped := 1\<rparr>\<rparr>)
   \<and> (\<exists>evs. trace (snd (try_topic env2 (Num 5) doc0 JNull snap0 False state0))
               = trace (state0\<lparr>report := (report state0)\<lparr>skipped := 1\<rparr>\<rparr>) @ evs
            \<and> replies_url env2 (Num 5) \<in> set (request_urls evs))
   \<and> (\<exists>replies w2. files (snd (try_topic env2 (Num 5) doc0 JNull snap0 False state0))
                        (repliesFile env2 (Num 5))
                      = Some (repliesDoc env2 (Num 5) (js_get doc0 ''topic'') replies w2))
   \<and> try_topic env1 (Num 1) JNull replies_doc0 snap0 True state0
       = refresh_replies env1 (Num 1) topic1 (snd (refresh_topic env1 (Num 1) JNull snap0 True state0))
   \<and> try_topic env0 (Num 1) JNull JNull snap0 True state0
       = (Inl (Error ''down''),
          before_attempt env0 (endpoints_topicById env0 (Num 1)) None (Suc (Suc (Suc 0))) state0)"
proof -
  let ?w1 = "state0\<lparr>report := (report state0)\<lparr>skipped := 1\<rparr>\<rparr>"
  let ?down = "before_attempt env0 (endpoints_topicById env0 (Num 1)) None (Suc (Suc (Suc 0))) state0"
  have retries: "0 < retries env0" "0 < retries env1" "0 < retries env2"
    by (simp_all add: env0_simps env1_simps env2_simps)
  have skip: "refresh_topic env0 (Num 5) doc0 snap0 False state0 = (Inr (js_get doc0 ''topic''), ?w1)"
    "refresh_topic env2 (Num 5) doc0 snap0 False state0 = (Inr (js_get doc0 ''topic''), ?w1)"
    by (simp_all add: refresh_topic_def coalesce_def doc0_def state0_def empty_report_def)
  have fresh: "decideRefreshTopic env0 doc0 snap0 (Num 2000) (Num 5000) = Inr False"
    "decideRefreshTopic env2 doc0 snap0 (Num 2000) (Num 5000) = Inr False"
    by (simp_all add: decideRefreshTopic_def snap0_def doc0_def env0_simps env2_def env0_def
        prevFetchedAt_def coalesce_def num_gt_def num_sub_def sameReplies_def sameTouched_def
        num_eq_def)
  have same: "\<not> shouldRefreshReplies env0 False replies_doc0 (js_get doc0 ''topic'')"
    by (simp add: shouldRefreshReplies_def replies_doc0_def doc0_def coalesce_def num_eq_def)
  have none: "shouldRefreshReplies env2 False JNull (js_get doc0 ''topic'')"
    by (simp add: shouldRefreshReplies_def)
  have refreshed: "refresh_topic env1 (Num 1) JNull snap0 True state0
      = (Inr topic1, snd (refresh_topic env1 (Num 1) JNull snap0 True state0))"
    using env1_refresh_topic by (simp add: prod_eq_iff)
  have absent: "decideRefreshTopic env1 JNull snap0 (Num 2000) (Num 5000) = Inr True"
    by (simp add: decideRefreshTopic_def)
  have again: "shouldRefreshReplies env1 True replies_doc0 topic1"
    by (simp add: shouldRefreshReplies_def)
  have down: "refresh_topic env0 (Num 1) JNull snap0 True state0 = (Inl (Error ''down''), ?down)"
    by (simp add: refresh_topic_def fetchTopic_def env0_client_down)
  have a: "try_topic env0 (Num 5) doc0 replies_doc0 snap0 False state0 = (Inr (), ?w1)"
    using replies_refetch_decision [of env0 "Num 5" doc0 snap0 False state0 "js_get doc0 ''topic''"
        ?w1 "Num 2000" "Num 5000" replies_doc0] skip(1) fresh(1) retries(1) same
    by blast
  have run2: "try_topic env2 (Num 5) doc0 JNull snap0 False state0
      = refresh_replies env2 (Num 5) (js_get doc0 ''topic'') ?w1"
    and b: "\<exists>evs. trace (snd (try_topic env2 (Num 5) doc0 JNull snap0 False state0)) = trace ?w1 @ evs
            \<and> replies_url env2 (Num 5) \<in> set (request_urls evs)"
    and written: "fst (try_topic env2 (Num 5) doc0 JNull snap0 False state0) = Inr ()
      \<longrightarrow> (\<exists>replies w2. files (snd (try_topic env2 (Num 5) doc0 JNull snap0 False state0))
                        (repliesFile env2 (Num 5))
                      = Some (repliesDoc env2 (Num 5) (js_get doc0 ''topic'') replies w2))"
    using replies_refetch_decision [of env2 "Num 5" doc0 snap0 False state0 "js_get doc0 ''topic''"
        ?w1 "Num 2000" "Num 5000" JNull] skip(2) fresh(2) retries(3) none
    by blast+
  from run2 have "fst (try_topic env2 (Num 5) doc0 JNull snap0 False state0) = Inr ()"
    using env2_replies_written [of "js_get doc0 ''topic''"] by simp
  with written have c: "\<exists>replies w2. files (snd (try_topic env2 (Num 5) doc0 JNull snap0 False state0))
                        (repliesFile env2 (Num 5))
                      = Some (repliesDoc env2 (Num 5) (js_get doc0 ''topic'') replies w2)"
    by blast
  have d: "try_topic env1 (Num 1) JNull replies_doc0 snap0 True state0
       = refresh_replies env1 (Num 1) topic1 (snd (refresh_topic env1 (Num 1) JNull snap0 True state0))"
    using replies_refetch_decision [of env1 "Num 1" JNull snap0 True state0 topic1
        "snd (refresh_topic env1 (Num 1) JNull snap0 True state0)" "Num 2000" "Num 5000" replies_doc0]
      refreshed absent retries(2) again
    by blast
  have e: "try_topic env0 (Num 1) JNull JNull snap0 True state0 = (Inl (Error ''down''), ?down)"
    using replies_refetch_decision [of env0 "Num 1" JNull snap0 True state0 _ ?down _ _
        JNull "Error ''down''"] down
    by blast
  from a b c d e show ?thesis by blast
qed

section \<open>The run after a list failure\<close>

lemma map_of_obj_set_other: "k' \<noteq> k \<Longrightarrow> map_of (obj_set obj k v) k' = map_of obj k'"
proof -
  assume other: "k' \<noteq> k"
  then have "map_of (map (\<lambda>(k'', v'). if k'' = k then (k'', v) else (k'', v')) obj) k' = map_of obj k'"
    by (induction obj) auto
  with other show ?thesis by (auto simp: obj_set_def map_add_def split: option.splits)
qed

lemma lists_set_list_report_other:
  "name' \<noteq> name \<Longrightarrow>
     map_of (lists (report (set_list_report name entry w))) name' = map_of (lists (report w)) name'"
  by (simp add: set_list_report_def map_of_obj_set_other)

lemma lists_kept_refl [simp]: "lists_kept w w"
  by (simp add: lists_kept_def)

lemma lists_kept_trans: "lists_kept w w1 \<Longrightarrow> lists_kept w1 w2 \<Longrightarrow> lists_kept w w2"
  by (simp add: lists_kept_def)

lemma lists_kept_frame: "report w' = report w \<and> files w' = files w \<Longrightarrow> lists_kept w w'"
  by (simp add: lists_kept_def)

lemma list_files_apart:
  "topicFile e topicId \<notin> set list_files" "repliesFile e topicId \<notin> set list_files"
  "STATE_FILE \<notin> set list_files" "LAST_RUN_FILE \<notin> set list_files"
  by (simp_all add: list_files_def topicFile_def repliesFile_def STATE_FILE_def LAST_RUN_FILE_def
      LATEST_FILE_def HOT_FILE_def HOT_POOL_FILE_def NODES_FILE_def)

lemma lists_kept_write:
  "writeJsonAtomic e file data w = (r, w') \<Longrightarrow> file \<notin> set list_files \<Longrightarrow> lists_kept w w'"
  by (auto simp: writeJsonAtomic_def lists_kept_def Let_def split: option.splits)

lemma frame_fetchReplies_pages:
  "report (snd (fetchReplies_pages e topicId token p all w)) = report w
   \<and> files (snd (fetchReplies_pages e topicId token p all w)) = files w"
proof (induction e topicId token p all w rule: fetchReplies_pages.induct)
  case (1 e topicId token p all w)
  show ?case
  proof (cases "p \<le> 50")
    case False
    then show ?thesis by (subst (1 2) fetchReplies_pages.simps) simp
  next
    case True
    obtain r w1 where f: "fetchJsonWithRetry e (endpoints_v2Replies e topicId p) (Some token) w = (r, w1)"
      by (cases "fetchJsonWithRetry e (endpoints_v2Replies e topicId p) (Some token) w")
    then have same: "report w1 = report w" "files w1 = files w"
      using frame_fetchJsonWithRetry by blast+
    show ?thesis
    proof (cases r)
      case (Inl er)
      with True f same show ?thesis by (subst (1 2) fetchReplies_pages.simps) simp
    next
      case (Inr page)
      show ?thesis
      proof (cases "page_items page = [] \<or> length (page_items page) < 50")
        case True
        with \<open>p \<le> 50\<close> f Inr same show ?thesis
          by (subst (1 2) fetchReplies_pages.simps) (auto simp: Let_def)
      next
        case False
        with 1 [OF \<open>p \<le> 50\<close> f [symmetric] Inr refl] same \<open>p \<le> 50\<close> f Inr show ?thesis
          by (subst (1 2) fetchReplies_pages.simps) (simp add: Let_def)
      qed
    qed
  qed
qed

lemma frame_fetchReplies_paged:
  "fetchReplies_pages e topicId token p all w = (r, w') \<Longrightarrow> report w' = report w \<and> files w' = files w"
  using frame_fetchReplies_pages [of e topicId token p all w] by simp

lemma frame_fetchReplies:
  "fetchReplies e topicId w = (r, w') \<Longrightarrow> report w' = report w \<and> files w' = files w"
  by (auto simp: fetchReplies_def split: prod.splits sum.splits option.splits if_splits
      dest: frame_fetchJsonWithRetry frame_fetchReplies_paged)

lemma lists_kept_fetchTopic: "fetchTopic e topicId w = (r, w') \<Longrightarrow> lists_kept w w'"
  using frame_fetchTopic lists_kept_frame by blast

lemma lists_kept_fetchReplies: "fetchReplies e topicId w = (r, w') \<Longrightarrow> lists_kept w w'"
  using frame_fetchReplies lists_kept_frame by blast

lemma lists_kept_counts [simp]:
  "lists_kept w (w'\<lparr>report := (report w')\<lparr>refreshed := n\<rparr>\<rparr>) = lists_kept w w'"
  "lists_kept w (w'\<lparr>report := (report w')\<lparr>skipped := n\<rparr>\<rparr>) = lists_kept w w'"
  "lists_kept w (w'\<lparr>report := (report w')\<lparr>finished_at := t\<rparr>\<rparr>) = lists_kept w w'"
  "lists_kept w (push_failed topicId er w') = lists_kept w w'"
  by (simp_all add: lists_kept_def push_failed_def)

lemma lists_kept_refresh_topic:
  assumes run: "refresh_topic e topicId doc listSnapshot should w = (r, w')"
  shows "lists_kept w w'"
proof (cases should)
  case False
  with run show ?thesis by (auto simp: refresh_topic_def)
next
  case True
  obtain r1 w1 where f: "fetchTopic e topicId w = (r1, w1)"
    by (cases "fetchTopic e topicId w")
  then have k1: "lists_kept w w1" by (rule lists_kept_fetchTopic)
  show ?thesis
  proof (cases r1)
    case (Inl er)
    with run True f k1 show ?thesis by (auto simp: refresh_topic_def)
  next
    case (Inr topic)
    show ?thesis
    proof (cases "truthy topic")
      case False
      with run True f Inr k1 show ?thesis by (auto simp: refresh_topic_def)
    next
      case t: True
      obtain r2 w2 where wr: "writeJsonAtomic e (topicFile e topicId)
          (topicDoc e topicId topic listSnapshot w1) w1 = (r2, w2)"
        by (cases "writeJsonAtomic e (topicFile e topicId) (topicDoc e topicId topic listSnapshot w1) w1")
      then have "lists_kept w1 w2" using list_files_apart(1) by (rule lists_kept_write)
      with k1 have "lists_kept w w2" by (rule lists_kept_trans)
      with run True f Inr t wr show ?thesis
        by (cases r2) (auto simp: refresh_topic_def)
    qed
  qed
qed

lemma lists_kept_refresh_replies:
  assumes run: "refresh_replies e topicId topic w = (r, w')"
  shows "lists_kept w w'"
proof -
  obtain r1 w1 where f: "fetchReplies e topicId w = (r1, w1)"
    by (cases "fetchReplies e topicId w")
  then have k1: "lists_kept w w1" by (rule lists_kept_fetchReplies)
  show ?thesis
  proof (cases r1)
    case (Inl er)
    with run f k1 show ?thesis by (auto simp: refresh_replies_def)
  next
    case (Inr replies)
    with run f have "writeJsonAtomic e (repliesFile e topicId)
        (repliesDoc e topicId topic replies w1) w1 = (r, w')"
      by (simp add: refresh_replies_def)
    then have "lists_kept w1 w'" using list_files_apart(2) by (rule lists_kept_write)
    with k1 show ?thesis by (rule lists_kept_trans)
  qed
qed

lemma lists_kept_try_topic:
  assumes run: "try_topic e topicId doc repliesDoc' listSnapshot should w = (r, w')"
  shows "lists_kept w w'"
proof -
  obtain r1 w1 where f: "refresh_topic e topicId doc listSnapshot should w = (r1, w1)"
    by (cases "refresh_topic e topicId doc listSnapshot should w")
  then have k1: "lists_kept w w1" by (rule lists_kept_refresh_topic)
  show ?thesis
  proof (cases r1)
    case (Inl er)
    with run f k1 show ?thesis by (auto simp: try_topic_def)
  next
    case (Inr topic)
    show ?thesis
    proof (cases "shouldRefreshReplies e should repliesDoc' topic \<and> truthy topic")
      case False
      with run f Inr k1 show ?thesis by (auto simp: try_topic_def)
    next
      case True
      with run f Inr have "refresh_replies e topicId topic w1 = (r, w')"
        by (simp add: try_topic_def)
      then have "lists_kept w1 w'" by (rule lists_kept_refresh_replies)
      with k1 show ?thesis by (rule lists_kept_trans)
    qed
  qed
qed

lemma lists_kept_process_topic:
  "process_topic e latest hot now ttlMs topicId w = (r, w') \<Longrightarrow> lists_kept w w'"
  by (auto simp: process_topic_def Let_def split: prod.splits sum.splits
      dest: lists_kept_try_topic)

lemma lists_kept_for_candidates:
  "for_candidates e latest hot now ttlMs ids w = (r, w') \<Longrightarrow> lists_kept w w'"
proof (induction ids arbitrary: w)
  case Nil
  then show ?case by auto
next
  case (Cons topicId rest)
  obtain r1 w1 where p: "process_topic e latest hot now ttlMs topicId w = (r1, w1)"
    by (cases "process_topic e latest hot now ttlMs topicId w")
  then have k1: "lists_kept w w1" by (rule lists_kept_process_topic)
  show ?case
  proof (cases r1)
    case (Inl er)
    with Cons.prems p k1 show ?thesis by auto
  next
    case (Inr u)
    with Cons.prems p have "for_candidates e latest hot now ttlMs rest w1 = (r, w')" by simp
    then have "lists_kept w1 w'" by (rule Cons.IH)
    with k1 show ?thesis by (rule lists_kept_trans)
  qed
qed

lemma persist_state_writes:
  assumes fs: "\<forall>k path. fs_failure e k path = None" and prev: "\<not> nullish previousState"
  shows "\<exists>w'. persist_state e previousState ids w = (Inr (), w') \<and> lists_kept w w'
           \<and> files w' STATE_FILE = Some (nextState e previousState ids w)"
  using fs prev
  by (simp add: persist_state_def writeJsonAtomic_def Let_def lists_kept_def
      STATE_FILE_def LAST_RUN_FILE_def list_files_def LATEST_FILE_def HOT_FILE_def
      HOT_POOL_FILE_def NODES_FILE_def)

lemma sync_topics_candidates:
  assumes fs: "\<forall>k path. fs_failure e k path = None" and prev: "\<not> nullish previousState"
    and l: "spread (coalesce latest (JArr [])) = Inr xs" and h: "iterable hot"
  shows "\<exists>w'. sync_topics e previousState latest hot hotPool w = (Inr (), w')
           \<and> lists (report w') = lists (report w)
           \<and> (\<forall>p \<in> set list_files. files w' p = files w p)
           \<and> candidates (report w') = length (dedupeTopicIds e (xs @ hotPool))
           \<and> js_get (readJson w' STATE_FILE JNull) ''candidate_topic_ids''
               = JArr (map JNum (dedupeTopicIds e (xs @ hotPool)))"
proof -
  let ?ids = "dedupeTopicIds e (xs @ hotPool)"
  let ?w1 = "w\<lparr>report := (report w)\<lparr>candidates := length ?ids\<rparr>\<rparr>"
  from l have il: "iterable latest" by (simp add: iterable_def)
  obtain w2 where loop: "for_candidates e latest hot (Date_now ?w1) (refreshTtlMs e) ?ids ?w1 = (Inr (), w2)"
    using for_candidates_returns [OF il h, of e "Date_now ?w1" "refreshTtlMs e" ?ids ?w1]
    by (cases "for_candidates e latest hot (Date_now ?w1) (refreshTtlMs e) ?ids ?w1") simp
  then have k2: "lists_kept ?w1 w2" by (rule lists_kept_for_candidates)
  obtain w' where p: "persist_state e previousState ?ids w2 = (Inr (), w')"
    and k3: "lists_kept w2 w'"
    and st: "files w' STATE_FILE = Some (nextState e previousState ?ids w2)"
    using persist_state_writes [OF fs prev, of ?ids w2] by blast
  from k2 k3 have "lists_kept ?w1 w'" by (rule lists_kept_trans)
  then have "lists (report w') = lists (report w)"
    "\<forall>p \<in> set list_files. files w' p = files w p"
    "candidates (report w') = length ?ids"
    by (simp_all add: lists_kept_def)
  moreover from st have "js_get (readJson w' STATE_FILE JNull) ''candidate_topic_ids''
      = JArr (map JNum ?ids)"
    by (simp add: readJson_def nextState_def)
  moreover from l loop p have "sync_topics e previousState latest hot hotPool w = (Inr (), w')"
    by (simp add: sync_topics_def Let_def)
  ultimately show ?thesis by blast
qed

lemma fetchJsonWithRetry_unanswered:
  assumes "\<forall>k st data. net e k url auth = Response st (Inr data) \<longrightarrow> \<not> response_ok st"
  shows "\<exists>er w1. fetchJsonWithRetry e url auth w = (Inl er, w1)"
proof -
  obtain r w1 where f: "fetchJsonWithRetry e url auth w = (r, w1)"
    by (cases "fetchJsonWithRetry e url auth w")
  show ?thesis
  proof (cases r)
    case (Inl er)
    with f show ?thesis by blast
  next
    case (Inr data)
    with f assms show ?thesis
      using fetchJsonWithRetry_provenance [of e url auth w data w1] by blast
  qed
qed

lemma fetchAndPersistList_report:
  assumes run: "fetchAndPersistList e name url filePath w = (v, w')" and other: "name' \<noteq> name"
  shows "map_of (lists (report w')) name' = map_of (lists (report w)) name'"
proof -
  obtain r w1 where f: "fetchJsonWithRetry e url None w = (r, w1)"
    by (cases "fetchJsonWithRetry e url None w")
  then have same: "report w1 = report w" using frame_fetchJsonWithRetry by blast
  have step: "map_of (lists (report (set_list_report name entry w2))) name'
      = map_of (lists (report w)) name'" if "report w2 = report w" for entry w2
    using that other by (simp add: lists_set_list_report_other)
  show ?thesis
  proof (cases r)
    case (Inl er)
    with run f step [OF same] show ?thesis by (auto simp: fetchAndPersistList_def Let_def)
  next
    case (Inr data)
    obtain r2 w2 where wr: "writeJsonAtomic e filePath data w1 = (r2, w2)"
      by (cases "writeJsonAtomic e filePath data w1")
    then have "report w2 = report w" using report_write [OF wr] same by simp
    with run f Inr wr step show ?thesis
      by (cases r2) (auto simp: fetchAndPersistList_def Let_def)
  qed
qed

lemma fetchAndPersistList_unanswered:
  assumes run: "fetchAndPersistList e name url filePath w = (v, w')"
    and no: "\<forall>k st data. net e k url None = Response st (Inr data) \<longrightarrow> \<not> response_ok st"
  shows "v = readJson w filePath (JArr [])" and "files w' = files w"
    and "\<exists>entry. map_of (lists (report w')) name = Some entry \<and> status entry = ''fallback''"
proof -
  obtain er w1 where f: "fetchJsonWithRetry e url None w = (Inl er, w1)"
    using fetchJsonWithRetry_unanswered [OF no] by blast
  note fb = fetchAndPersistList_fallback(1) [OF f, of name filePath]
    fetchAndPersistList_fallback(2) [OF f]
  from run fb show "v = readJson w filePath (JArr [])" "files w' = files w" by auto
  from run fb(1) have "map_of (lists (report w')) name
      = Some (fallback_entry (readJson w filePath (JArr [])) url er)"
    by (auto simp: lists_set_list_report)
  then show "\<exists>entry. map_of (lists (report w')) name = Some entry \<and> status entry = ''fallback''"
    by (simp add: fallback_entry_def)
qed

lemma updateHotPool_writes:
  assumes run: "updateHotPool e currentHot w = (Inr pool, w')"
  shows "report w' = report w" and "files w' = (files w)(HOT_POOL_FILE \<mapsto> JArr pool)"
    and "\<exists>now merged. mergeTopicLists e (readJson w HOT_POOL_FILE (JArr [])) (coalesce currentHot (JArr []))
            = Inr merged \<and> pool = limited e (pruned e now merged)"
  using run
  by (auto simp: updateHotPool_def writeJsonAtomic_def Let_def split: sum.splits option.splits)

lemma list_paths_apart:
  "LATEST_FILE \<noteq> HOT_FILE" "LATEST_FILE \<noteq> HOT_POOL_FILE" "LATEST_FILE \<noteq> NODES_FILE"
  "HOT_FILE \<noteq> HOT_POOL_FILE" "HOT_FILE \<noteq> NODES_FILE" "HOT_POOL_FILE \<noteq> NODES_FILE"
  by (simp_all add: HOT_FILE_def LATEST_FILE_def HOT_POOL_FILE_def NODES_FILE_def)

lemma main_lists:
  assumes fs: "\<forall>k path. fs_failure e k path = None"
    and old: "iterable (readJson w HOT_FILE (JArr []))" "iterable (readJson w HOT_POOL_FILE (JArr []))"
    and new: "\<forall>k auth st data. net e k endpoints_hot auth = Response st (Inr data) \<and> response_ok st
               \<longrightarrow> iterable data"
  shows "\<exists>latest hot hotPool w7.
           main e w = sync_topics e (readJson w STATE_FILE (JObj [])) latest hot hotPool w7
           \<and> iterable hot
           \<and> (iterable (readJson w LATEST_FILE (JArr []))
                \<and> (\<forall>k auth st data. net e k endpoints_latest auth = Response st (Inr data)
                      \<and> response_ok st \<longrightarrow> iterable data)
                \<longrightarrow> iterable latest)
           \<and> files w7 HOT_POOL_FILE = Some (JArr hotPool)
           \<and> (\<exists>now merged.
                 mergeTopicLists e (readJson w HOT_POOL_FILE (JArr [])) (coalesce hot (JArr []))
                   = Inr merged
                 \<and> hotPool = limited e (pruned e now merged))
           \<and> ((\<forall>k st data. net e k endpoints_latest None = Response st (Inr data) \<longrightarrow> \<not> response_ok st)
                \<longrightarrow> latest = readJson w LATEST_FILE (JArr [])
                    \<and> files w7 LATEST_FILE = files w LATEST_FILE
                    \<and> (\<exists>entry. map_of (lists (report w7)) ''latest'' = Some entry
                                \<and> status entry = ''fallback''))
           \<and> ((\<forall>k st data. net e k endpoints_hot None = Response st (Inr data) \<longrightarrow> \<not> response_ok st)
                \<longrightarrow> hot = readJson w HOT_FILE (JArr [])
                    \<and> files w7 HOT_FILE = files w HOT_FILE
                    \<and> (\<exists>entry. map_of (lists (report w7)) ''hot'' = Some entry
                                \<and> status entry = ''fallback''))
           \<and> ((\<forall>k st data. net e k endpoints_nodes None = Response st (Inr data) \<longrightarrow> \<not> response_ok st)
                \<longrightarrow> files w7 NODES_FILE = files w NODES_FILE
                    \<and> (\<exists>entry. map_of (lists (report w7)) ''nodes'' = Some entry
                                \<and> status entry = ''fallback''))"
proof -
  obtain w1 where dirs:
    "ensureDirs e [INDEX_DIR, NODES_DIR, TOPICS_DIR, REPLIES_DIR, META_DIR] w = (Inr (), w1)"
    and f1: "files w1 = files w"
    using ensureDirs_returns [OF fs] by blast
  let ?w2 = "w1\<lparr>report := \<lparr>started_at = toISOString e (clock w), finished_at = None,
               lists = [], candidates = 0, refreshed = 0, skipped = 0, failed = []\<rparr>\<rparr>"
  have f2: "files ?w2 = files w" using f1 by simp
  obtain latest w3 where l: "fetchAndPersistList e ''latest'' endpoints_latest LATEST_FILE ?w2 = (latest, w3)"
    by (cases "fetchAndPersistList e ''latest'' endpoints_latest LATEST_FILE ?w2")
  obtain hot w4 where h: "fetchAndPersistList e ''hot'' endpoints_hot HOT_FILE w3 = (hot, w4)"
    by (cases "fetchAndPersistList e ''hot'' endpoints_hot HOT_FILE w3")
  have f3: "files w3 HOT_FILE = files w HOT_FILE" "files w3 HOT_POOL_FILE = files w HOT_POOL_FILE"
    "files w3 NODES_FILE = files w NODES_FILE"
    using fetchAndPersistList_files [OF l] f2 list_paths_apart by simp_all
  have ih: "iterable hot"
    using fetchAndPersistList_value [OF h _ new] old(1) f3(1) by (simp add: readJson_def)
  have f4: "files w4 HOT_POOL_FILE = files w HOT_POOL_FILE" "files w4 LATEST_FILE = files w3 LATEST_FILE"
    "files w4 NODES_FILE = files w NODES_FILE"
    using fetchAndPersistList_files [OF h] f3 list_paths_apart by simp_all
  then have pool4: "readJson w4 HOT_POOL_FILE (JArr []) = readJson w HOT_POOL_FILE (JArr [])"
    by (simp add: readJson_def)
  then have "iterable (readJson w4 HOT_POOL_FILE (JArr []))" using old(2) by simp
  then obtain hotPool w5 where u: "updateHotPool e hot w4 = (Inr hotPool, w5)"
    using updateHotPool_returns [OF _ ih] fs by blast
  note u5 = updateHotPool_writes [OF u]
  let ?w6 = "set_list_report ''hot_pool''
      \<lparr>status = ''updated'', count = length hotPool, source = HOT_POOL_FILE, err = None\<rparr> w5"
  obtain nodes w7 where n: "fetchAndPersistList e ''nodes'' endpoints_nodes NODES_FILE ?w6 = (nodes, w7)"
    by (cases "fetchAndPersistList e ''nodes'' endpoints_nodes NODES_FILE ?w6")
  have f6: "files ?w6 = (files w4)(HOT_POOL_FILE \<mapsto> JArr hotPool)" using u5(2) by simp
  have f7: "files w7 HOT_POOL_FILE = Some (JArr hotPool)" "files w7 LATEST_FILE = files w3 LATEST_FILE"
    "files w7 HOT_FILE = files w4 HOT_FILE"
    using fetchAndPersistList_files [OF n] f6 f4 list_paths_apart by simp_all
  have r7: "map_of (lists (report w7)) ''latest'' = map_of (lists (report w3)) ''latest''"
    "map_of (lists (report w7)) ''hot'' = map_of (lists (report w4)) ''hot''"
    using fetchAndPersistList_report [OF n, of "''latest''"] fetchAndPersistList_report [OF n, of "''hot''"]
      fetchAndPersistList_report [OF h, of "''latest''"] u5(1)
    by (simp_all add: lists_set_list_report_other)
  have run: "main e w = sync_topics e (readJson w STATE_FILE (JObj [])) latest hot hotPool w7"
    using dirs l h u n f1 by (simp add: main_def Let_def readJson_def del: ensureDirs.simps)
  have il: "iterable (readJson w LATEST_FILE (JArr []))
                \<and> (\<forall>k auth st data. net e k endpoints_latest auth = Response st (Inr data)
                      \<and> response_ok st \<longrightarrow> iterable data)
                \<longrightarrow> iterable latest"
    using fetchAndPersistList_value [OF l] f2 by (simp add: readJson_def)
  have merged: "\<exists>now merged.
                 mergeTopicLists e (readJson w HOT_POOL_FILE (JArr [])) (coalesce hot (JArr []))
                   = Inr merged
                 \<and> hotPool = limited e (pruned e now merged)"
    using u5(3) pool4 by simp
  have cl: "(\<forall>k st data. net e k endpoints_latest None = Response st (Inr data) \<longrightarrow> \<not> response_ok st)
                \<longrightarrow> latest = readJson w LATEST_FILE (JArr [])
                    \<and> files w7 LATEST_FILE = files w LATEST_FILE
                    \<and> (\<exists>entry. map_of (lists (report w7)) ''latest'' = Some entry
                                \<and> status entry = ''fallback'')"
    using fetchAndPersistList_unanswered [OF l] f2 f7(2) r7(1) by (simp add: readJson_def)
  have ch: "(\<forall>k st data. net e k endpoints_hot None = Response st (Inr data) \<longrightarrow> \<not> response_ok st)
                \<longrightarrow> hot = readJson w HOT_FILE (JArr [])
                    \<and> files w7 HOT_FILE = files w HOT_FILE
                    \<and> (\<exists>entry. map_of (lists (report w7)) ''hot'' = Some entry
                                \<and> status entry = ''fallback'')"
    using fetchAndPersistList_unanswered [OF h] f3(1) f7(3) r7(2) by (simp add: readJson_def)
  have cn: "(\<forall>k st data. net e k endpoints_nodes None = Response st (Inr data) \<longrightarrow> \<not> response_ok st)
                \<longrightarrow> files w7 NODES_FILE = files w NODES_FILE
                    \<and> (\<exists>entry. map_of (lists (report w7)) ''nodes'' = Some entry
                                \<and> status entry = ''fallback'')"
    using fetchAndPersistList_unanswered(2,3) [OF n] f6 f4(3) list_paths_apart by simp
  from run ih il f7(1) merged cl ch cn show ?thesis by blast
qed

lemma state1_files:
  "readJson state1 LATEST_FILE (JArr []) = JObj []"
  "readJson state1 HOT_FILE (JArr []) = JArr []"
  "readJson state1 HOT_POOL_FILE (JArr []) = JArr [old_entry, recent_entry]"
  by (simp_all add: readJson_def state1_def state0_def LATEST_FILE_def HOT_FILE_def
      HOT_POOL_FILE_def)

lemma state0_files:
  "readJson state0 LATEST_FILE (JArr []) = JArr [recent_entry]"
  "readJson state0 HOT_FILE (JArr []) = JArr []"
  "readJson state0 HOT_POOL_FILE (JArr []) = JArr [old_entry, recent_entry]"
  "readJson state0 STATE_FILE (JObj []) = JObj []"
  by (simp_all add: readJson_def state0_def LATEST_FILE_def HOT_FILE_def HOT_POOL_FILE_def
      STATE_FILE_def)

lemma iterable_arrays [simp]: "iterable (JArr xs)"
  by (simp add: iterable_def coalesce_def)

lemma dedupeTopicIds_keeps:
  "k \<in> set s \<Longrightarrow>
     k \<in> set (foldl (\<lambda>s item.
                 if Number_isFinite (topic_id e item) \<and> num_gt (topic_id e item) (Num 0)
                 then Set_add s (topic_id e item) else s)
               s items)"
  by (induction items arbitrary: s) (simp_all add: Set_add_def)

lemma dedupeTopicIds_first:
  "Number_isFinite (topic_id e item) \<Longrightarrow> num_gt (topic_id e item) (Num 0)
     \<Longrightarrow> topic_id e item \<in> set (dedupeTopicIds e (item # items))"
  by (simp add: dedupeTopicIds_def Let_def Set_add_def dedupeTopicIds_keeps)

text \<open>
  C8, as the specification states it, does not hold: a list failure can end the run. With
  the network down and an object in \<^verbatim>\<open>latest.json\<close>, the fetch of the latest list fails
  after its retries, the content of the file is returned, and the spread of line 61 throws
  a TypeError that nothing catches.
\<close>

theorem list_fetch_failure_fatal:
  "isl (fst (fetchJsonWithRetry env0 endpoints_latest None state1))
   \<and> fst (fetchAndPersistList env0 ''latest'' endpoints_latest LATEST_FILE state1) = JObj []
   \<and> fst (main env0 state1) = Inl (Error ''TypeError: value is not iterable'')"
proof -
  have no: "\<forall>k st data. net env0 k url None = Response st (Inr data) \<longrightarrow> \<not> response_ok st" for url
    by (simp add: env0_simps)
  obtain er w1 where f: "fetchJsonWithRetry env0 endpoints_latest None state1 = (Inl er, w1)"
    using fetchJsonWithRetry_unanswered [OF no] by blast
  then have first: "isl (fst (fetchJsonWithRetry env0 endpoints_latest None state1))"
    by simp
  have second: "fst (fetchAndPersistList env0 ''latest'' endpoints_latest LATEST_FILE state1) = JObj []"
    using fetchAndPersistList_fallback(1) [OF f, of "''latest''" LATEST_FILE]
    by (simp add: state1_files)
  obtain latest hot hotPool w7 where
    run: "main env0 state1
            = sync_topics env0 (readJson state1 STATE_FILE (JObj [])) latest hot hotPool w7"
    and l: "(\<forall>k st data. net env0 k endpoints_latest None = Response st (Inr data) \<longrightarrow> \<not> response_ok st)
              \<longrightarrow> latest = readJson state1 LATEST_FILE (JArr [])"
    using main_lists [of env0 state1] by (auto simp: env0_simps state1_files)
  from l no have "latest = JObj []" by (simp add: state1_files)
  with run have "fst (main env0 state1) = Inl (Error ''TypeError: value is not iterable'')"
    by (simp add: sync_topics_def coalesce_def)
  with first second show ?thesis by blast
qed

text \<open>
  C8, as the code has it. When the request of a list fails after its retries,
  \<open>fetchAndPersistList\<close> returns what the list's file held before (\<^verbatim>\<open>[]\<close> when there was
  none), leaves every file as it was and records the list in the report with status
  \<open>fallback\<close>. The failure is not fatal when what the files held can be spread: with a file
  system that does not fail, a state file that does not hold \<^verbatim>\<open>null\<close>, and list files and
  list responses that are arrays, \<open>main\<close> completes, and the candidates it records (their
  number in the report, their ids in the state file) are the ids of the latest list it got
  followed by those of the hot pool, which is merged from the stored pool and the hot list
  it got and is what the pool file holds at the end. For each list that is never answered,
  the list it got is the previous content of the file, the file is at the end what it was
  at the start, and the report of the run has the list with status \<open>fallback\<close>.
\<close>

theorem list_fetch_failure_falls_back:
  "(fetchJsonWithRetry e url None w = (Inl er, w1)
      \<longrightarrow> fetchAndPersistList e name url filePath w
            = (readJson w filePath (JArr []),
               set_list_report name (fallback_entry (readJson w filePath (JArr [])) url er) w1)
          \<and> files (snd (fetchAndPersistList e name url filePath w)) = files w
          \<and> (\<exists>entry. map_of (lists (report (snd (fetchAndPersistList e name url filePath w)))) name
                         = Some entry
                     \<and> status entry = ''fallback''))
   \<and> ((\<forall>k path. fs_failure e k path = None)
        \<and> \<not> nullish (readJson w STATE_FILE (JObj []))
        \<and> iterable (readJson w LATEST_FILE (JArr []))
        \<and> iterable (readJson w HOT_FILE (JArr []))
        \<and> iterable (readJson w HOT_POOL_FILE (JArr []))
        \<and> (\<forall>k auth st data.
              (net e k endpoints_latest auth = Response st (Inr data)
                 \<or> net e k endpoints_hot auth = Response st (Inr data))
              \<and> response_ok st \<longrightarrow> iterable data)
        \<longrightarrow> (\<exists>w' latest hot xs hotPool.
               main e w = (Inr (), w')
               \<and> spread (coalesce latest (JArr [])) = Inr xs
               \<and> (\<exists>now merged.
                     mergeTopicLists e (readJson w HOT_POOL_FILE (JArr [])) (coalesce hot (JArr []))
                       = Inr merged
                     \<and> hotPool = limited e (pruned e now merged))
               \<and> files w' HOT_POOL_FILE = Some (JArr hotPool)
               \<and> candidates (report w') = length (dedupeTopicIds e (xs @ hotPool))
               \<and> js_get (readJson w' STATE_FILE JNull) ''candidate_topic_ids''
                   = JArr (map JNum (dedupeTopicIds e (xs @ hotPool)))
               \<and> ((\<forall>k st data. net e k endpoints_latest None = Response st (Inr data)
                                  \<longrightarrow> \<not> response_ok st)
                    \<longrightarrow> latest = readJson w LATEST_FILE (JArr [])
                        \<and> files w' LATEST_FILE = files w LATEST_FILE
                        \<and> (\<exists>entry. map_of (lists (report w')) ''latest'' = Some entry
                                    \<and> status entry = ''fallback''))
               \<and> ((\<forall>k st data. net e k endpoints_hot None = Response st (Inr data)
                                  \<longrightarrow> \<not> response_ok st)
                    \<longrightarrow> hot = readJson w HOT_FILE (JArr [])
                        \<and> files w' HOT_FILE = files w HOT_FILE
                        \<and> (\<exists>entry. map_of (lists (report w')) ''hot'' = Some entry
                                    \<and> status entry = ''fallback''))
               \<and> ((\<forall>k st data. net e k endpoints_nodes None = Response st (Inr data)
                                  \<longrightarrow> \<not> response_ok st)
                    \<longrightarrow> files w' NODES_FILE = files w NODES_FILE
                        \<and> (\<exists>entry. map_of (lists (report w')) ''nodes'' = Some entry
                                    \<and> status entry = ''fallback''))))"
proof (intro conjI impI)
  assume failed: "fetchJsonWithRetry e url None w = (Inl er, w1)"
  let ?fallback = "readJson w filePath (JArr [])"
  show run: "fetchAndPersistList e name url filePath w
      = (?fallback, set_list_report name (fallback_entry ?fallback url er) w1)"
    using failed by (rule fetchAndPersistList_fallback(1))
  show "files (snd (fetchAndPersistList e name url filePath w)) = files w"
    using run fetchAndPersistList_fallback(2) [OF failed] by simp
  have "map_of (lists (report (set_list_report name (fallback_entry ?fallback url er) w1))) name
      = Some (fallback_entry ?fallback url er)"
    by (rule lists_set_list_report)
  moreover have "status (fallback_entry ?fallback url er) = ''fallback''"
    by (simp add: fallback_entry_def)
  ultimately show "\<exists>entry. map_of (lists (report (snd (fetchAndPersistList e name url filePath w)))) name
                         = Some entry
                     \<and> status entry = ''fallback''"
    using run by simp
next
  assume h: "(\<forall>k path. fs_failure e k path = None)
        \<and> \<not> nullish (readJson w STATE_FILE (JObj []))
        \<and> iterable (readJson w LATEST_FILE (JArr []))
        \<and> iterable (readJson w HOT_FILE (JArr []))
        \<and> iterable (readJson w HOT_POOL_FILE (JArr []))
        \<and> (\<forall>k auth st data.
              (net e k endpoints_latest auth = Response st (Inr data)
                 \<or> net e k endpoints_hot auth = Response st (Inr data))
              \<and> response_ok st \<longrightarrow> iterable data)"
  then have fs: "\<forall>k path. fs_failure e k path = None"
    and prev: "\<not> nullish (readJson w STATE_FILE (JObj []))"
    and old: "iterable (readJson w LATEST_FILE (JArr []))" "iterable (readJson w HOT_FILE (JArr []))"
      "iterable (readJson w HOT_POOL_FILE (JArr []))"
    and new: "\<forall>k auth st data. net e k endpoints_latest auth = Response st (Inr data) \<and> response_ok st
               \<longrightarrow> iterable data"
      "\<forall>k auth st data. net e k endpoints_hot auth = Response st (Inr data) \<and> response_ok st
               \<longrightarrow> iterable data"
    by blast+
  obtain latest hot hotPool w7 where
    run: "main e w = sync_topics e (readJson w STATE_FILE (JObj [])) latest hot hotPool w7"
    and ih: "iterable hot"
    and il: "iterable (readJson w LATEST_FILE (JArr []))
                \<and> (\<forall>k auth st data. net e k endpoints_latest auth = Response st (Inr data)
                      \<and> response_ok st \<longrightarrow> iterable data)
                \<longrightarrow> iterable latest"
    and pool: "files w7 HOT_POOL_FILE = Some (JArr hotPool)"
    and merged: "\<exists>now merged.
                 mergeTopicLists e (readJson w HOT_POOL_FILE (JArr [])) (coalesce hot (JArr []))
                   = Inr merged
                 \<and> hotPool = limited e (pruned e now merged)"
    and cl: "(\<forall>k st data. net e k endpoints_latest None = Response st (Inr data) \<longrightarrow> \<not> response_ok st)
                \<longrightarrow> latest = readJson w LATEST_FILE (JArr [])
                    \<and> files w7 LATEST_FILE = files w LATEST_FILE
                    \<and> (\<exists>entry. map_of (lists (report w7)) ''latest'' = Some entry
                                \<and> status entry = ''fallback'')"
    and ch: "(\<forall>k st data. net e k endpoints_hot None = Response st (Inr data) \<longrightarrow> \<not> response_ok st)
                \<longrightarrow> hot = readJson w HOT_FILE (JArr [])
                    \<and> files w7 HOT_FILE = files w HOT_FILE
                    \<and> (\<exists>entry. map_of (lists (report w7)) ''hot'' = Some entry
                                \<and> status entry = ''fallback'')"
    and cn: "(\<forall>k st data. net e k endpoints_nodes None = Response st (Inr data) \<longrightarrow> \<not> response_ok st)
                \<longrightarrow> files w7 NODES_FILE = files w NODES_FILE
                    \<and> (\<exists>entry. map_of (lists (report w7)) ''nodes'' = Some entry
                                \<and> status entry = ''fallback'')"
    using main_lists [OF fs old(2,3) new(2)] by blast
  from il old(1) new(1) have "iterable latest" by blast
  then obtain xs where xs: "spread (coalesce latest (JArr [])) = Inr xs"
    using iterable_spread by blast
  obtain w' where sync: "sync_topics e (readJson w STATE_FILE (JObj [])) latest hot hotPool w7 = (Inr (), w')"
    and lists': "lists (report w') = lists (report w7)"
    and files': "\<forall>p \<in> set list_files. files w' p = files w7 p"
    and cand: "candidates (report w') = length (dedupeTopicIds e (xs @ hotPool))"
    and ids: "js_get (readJson w' STATE_FILE JNull) ''candidate_topic_ids''
               = JArr (map JNum (dedupeTopicIds e (xs @ hotPool)))"
    using sync_topics_candidates [OF fs prev xs ih, of hotPool w7] by blast
  from files' have same: "files w' LATEST_FILE = files w7 LATEST_FILE"
    "files w' HOT_FILE = files w7 HOT_FILE" "files w' HOT_POOL_FILE = files w7 HOT_POOL_FILE"
    "files w' NODES_FILE = files w7 NODES_FILE"
    by (simp_all add: list_files_def)
  have "main e w = (Inr (), w')" using run sync by simp
  moreover have "files w' HOT_POOL_FILE = Some (JArr hotPool)" using same(3) pool by simp
  moreover have "(\<forall>k st data. net e k endpoints_latest None = Response st (Inr data)
                                  \<longrightarrow> \<not> response_ok st)
                    \<longrightarrow> latest = readJson w LATEST_FILE (JArr [])
                        \<and> files w' LATEST_FILE = files w LATEST_FILE
                        \<and> (\<exists>entry. map_of (lists (report w')) ''latest'' = Some entry
                                    \<and> status entry = ''fallback'')"
    using cl same(1) lists' by simp
  moreover have "(\<forall>k st data. net e k endpoints_hot None = Response st (Inr data)
                                  \<longrightarrow> \<not> response_ok st)
                    \<longrightarrow> hot = readJson w HOT_FILE (JArr [])
                        \<and> files w' HOT_FILE = files w HOT_FILE
                        \<and> (\<exists>entry. map_of (lists (report w')) ''hot'' = Some entry
                                    \<and> status entry = ''fallback'')"
    using ch same(2) lists' by simp
  moreover have "(\<forall>k st data. net e k endpoints_nodes None = Response st (Inr data)
                                  \<longrightarrow> \<not> response_ok st)
                    \<longrightarrow> files w' NODES_FILE = files w NODES_FILE
                        \<and> (\<exists>entry. map_of (lists (report w')) ''nodes'' = Some entry
                                    \<and> status entry = ''fallback'')"
    using cn same(4) lists' by simp
  ultimately show "\<exists>w' latest hot xs hotPool.
               main e w = (Inr (), w')
               \<and> spread (coalesce latest (JArr [])) = Inr xs
               \<and> (\<exists>now merged.
                     mergeTopicLists e (readJson w HOT_POOL_FILE (JArr [])) (coalesce hot (JArr []))
                       = Inr merged
                     \<and> hotPool = limited e (pruned e now merged))
               \<and> files w' HOT_POOL_FILE = Some (JArr hotPool)
               \<and> candidates (report w') = length (dedupeTopicIds e (xs @ hotPool))
               \<and> js_get (readJson w' STATE_FILE JNull) ''candidate_topic_ids''
                   = JArr (map JNum (dedupeTopicIds e (xs @ hotPool)))
               \<and> ((\<forall>k st data. net e k endpoints_latest None = Response st (Inr data)
                                  \<longrightarrow> \<not> response_ok st)
                    \<longrightarrow> latest = readJson w LATEST_FILE (JArr [])
                        \<and> files w' LATEST_FILE = files w LATEST_FILE
                        \<and> (\<exists>entry. map_of (lists (report w')) ''latest'' = Some entry
                                    \<and> status entry = ''fallback''))
               \<and> ((\<forall>k st data. net e k endpoints_hot None = Response st (Inr data)
                                  \<longrightarrow> \<not> response_ok st)
                    \<longrightarrow> hot = readJson w HOT_FILE (JArr [])
                        \<and> files w' HOT_FILE = files w HOT_FILE
                        \<and> (\<exists>entry. map_of (lists (report w')) ''hot'' = Some entry
                                    \<and> status entry = ''fallback''))
               \<and> ((\<forall>k st data. net e k endpoints_nodes None = Response st (Inr data)
                                  \<longrightarrow> \<not> response_ok st)
                    \<longrightarrow> files w' NODES_FILE = files w NODES_FILE
                        \<and> (\<exists>entry. map_of (lists (report w')) ''nodes'' = Some entry
                                    \<and> status entry = ''fallback''))"
    using xs merged cand ids by blast
qed

lemma recent_entry_id:
  "Number_isFinite (topic_id env0 recent_entry)" "num_gt (topic_id env0 recent_entry) (Num 0)"
  by (simp_all add: topic_id_def recent_entry_def num_gt_def)

lemma state0_latest: "files state0 LATEST_FILE = Some (JArr [recent_entry])"
  by (simp add: state0_def LATEST_FILE_def HOT_POOL_FILE_def)

theorem list_fetch_failure_falls_back_witness:
  "fst (fetchAndPersistList env0 ''latest'' endpoints_latest LATEST_FILE state0) = JArr [recent_entry]
   \<and> files (snd (fetchAndPersistList env0 ''latest'' endpoints_latest LATEST_FILE state0)) = files state0
   \<and> (\<exists>entry. map_of (lists (report (snd (fetchAndPersistList env0 ''latest'' endpoints_latest
                                             LATEST_FILE state0)))) ''latest'' = Some entry
              \<and> status entry = ''fallback'')
   \<and> (\<exists>w' hotPool.
         main env0 state0 = (Inr (), w')
         \<and> files w' LATEST_FILE = Some (JArr [recent_entry])
         \<and> files w' HOT_POOL_FILE = Some (JArr hotPool)
         \<and> candidates (report w') = length (dedupeTopicIds env0 (recent_entry # hotPool))
         \<and> 0 < candidates (report w')
         \<and> js_get (readJson w' STATE_FILE JNull) ''candidate_topic_ids''
             = JArr (map JNum (dedupeTopicIds env0 (recent_entry # hotPool)))
         \<and> (\<exists>entry. map_of (lists (report w')) ''latest'' = Some entry
                     \<and> status entry = ''fallback''))"
proof -
  let ?w1 = "before_attempt env0 endpoints_latest None (Suc (Suc (Suc 0))) state0"
  note claim = list_fetch_failure_falls_back [of env0 endpoints_latest state0 "Error ''down''"
      ?w1 "''latest''" LATEST_FILE]
  have down: "fetchJsonWithRetry env0 endpoints_latest None state0 = (Inl (Error ''down''), ?w1)"
    by (rule env0_client_down)
  have quiet: "\<forall>k path. fs_failure env0 k path = None"
    "\<forall>k auth st data.
        (net env0 k endpoints_latest auth = Response st (Inr data)
           \<or> net env0 k endpoints_hot auth = Response st (Inr data))
        \<and> response_ok st \<longrightarrow> iterable data"
    "\<forall>k st data. net env0 k endpoints_latest None = Response st (Inr data) \<longrightarrow> \<not> response_ok st"
    by (simp_all add: env0_simps)
  from claim down have "fetchAndPersistList env0 ''latest'' endpoints_latest LATEST_FILE state0
      = (readJson state0 LATEST_FILE (JArr []),
         set_list_report ''latest''
           (fallback_entry (readJson state0 LATEST_FILE (JArr [])) endpoints_latest (Error ''down'')) ?w1)"
    by blast
  then have one: "fst (fetchAndPersistList env0 ''latest'' endpoints_latest LATEST_FILE state0)
      = JArr [recent_entry]"
    by (simp only: fst_conv state0_files)
  from claim down
  have two: "files (snd (fetchAndPersistList env0 ''latest'' endpoints_latest LATEST_FILE state0))
      = files state0"
    by blast
  from claim down
  have three: "\<exists>entry. map_of (lists (report (snd (fetchAndPersistList env0 ''latest'' endpoints_latest
                                             LATEST_FILE state0)))) ''latest'' = Some entry
              \<and> status entry = ''fallback''"
    by blast
  have ok: "\<not> nullish (readJson state0 STATE_FILE (JObj []))"
    "iterable (readJson state0 LATEST_FILE (JArr []))"
    "iterable (readJson state0 HOT_FILE (JArr []))"
    "iterable (readJson state0 HOT_POOL_FILE (JArr []))"
    by (simp_all only: state0_files nullish.simps not_False_eq_True iterable_arrays)
  with claim quiet(1,2) obtain w' latest hot xs hotPool where
    run: "main env0 state0 = (Inr (), w')"
    and xs: "spread (coalesce latest (JArr [])) = Inr xs"
    and pool: "files w' HOT_POOL_FILE = Some (JArr hotPool)"
    and cand: "candidates (report w') = length (dedupeTopicIds env0 (xs @ hotPool))"
    and ids: "js_get (readJson w' STATE_FILE JNull) ''candidate_topic_ids''
                = JArr (map JNum (dedupeTopicIds env0 (xs @ hotPool)))"
    and cl: "(\<forall>k st data. net env0 k endpoints_latest None = Response st (Inr data)
                                  \<longrightarrow> \<not> response_ok st)
                    \<longrightarrow> latest = readJson state0 LATEST_FILE (JArr [])
                        \<and> files w' LATEST_FILE = files state0 LATEST_FILE
                        \<and> (\<exists>entry. map_of (lists (report w')) ''latest'' = Some entry
                                    \<and> status entry = ''fallback'')"
    by blast
  from cl quiet(3) have latest: "latest = JArr [recent_entry]"
    and kept: "files w' LATEST_FILE = Some (JArr [recent_entry])"
    and tag: "\<exists>entry. map_of (lists (report w')) ''latest'' = Some entry \<and> status entry = ''fallback''"
    by (simp_all add: state0_files state0_latest)
  from xs latest have "xs = [recent_entry]" by (simp add: coalesce_def)
  with cand ids have cand': "candidates (report w') = length (dedupeTopicIds env0 (recent_entry # hotPool))"
    and ids': "js_get (readJson w' STATE_FILE JNull) ''candidate_topic_ids''
                = JArr (map JNum (dedupeTopicIds env0 (recent_entry # hotPool)))"
    by simp_all
  have "topic_id env0 recent_entry \<in> set (dedupeTopicIds env0 (recent_entry # hotPool))"
    using recent_entry_id by (rule dedupeTopicIds_first)
  then have "0 < length (dedupeTopicIds env0 (recent_entry # hotPool))"
    by (cases "dedupeTopicIds env0 (recent_entry # hotPool)") simp_all
  with cand' have pos: "0 < candidates (report w')" by simp
  from run kept pool cand' pos ids' tag
  have "\<exists>w' hotPool.
         main env0 state0 = (Inr (), w')
         \<and> files w' LATEST_FILE = Some (JArr [recent_entry])
         \<and> files w' HOT_POOL_FILE = Some (JArr hotPool)
         \<and> candidates (report w') = length (dedupeTopicIds env0 (recent_entry # hotPool))
         \<and> 0 < candidates (report w')
         \<and> js_get (readJson w' STATE_FILE JNull) ''candidate_topic_ids''
             = JArr (map JNum (dedupeTopicIds env0 (recent_entry # hotPool)))
         \<and> (\<exists>entry. map_of (lists (report w')) ''latest'' = Some entry
                     \<and> status entry = ''fallback'')"
    by blast
  with one two three show ?thesis by blast
qed

end
